theory Spec2Isabelle
  imports Main
begin

section \<open>Python values used by \<open>we_dash/app.py\<close>\<close>

text \<open>
  Strings are byte lists. \<open>str(int)\<close>, \<open>' '.join\<close>, \<open>rstrip("\n")\<close>, \<open>strip()\<close>,
  \<open>lower()\<close> and \<open>in\<close> on strings are written out. \<open>strip\<close> and \<open>lower\<close> are
  \<open>str.strip\<close> and \<open>str.lower\<close> on ASCII text only: they remove the ASCII white space
  and fold the letters \<open>A\<close> to \<open>Z\<close>, and leave every byte from 128 on as it is, where
  Python also strips the other Unicode spaces and folds the other cased letters. Nothing
  below is stated about a search text, a name or a state that is not ASCII.
\<close>

definition digit_char :: "nat \<Rightarrow> char" where
  "digit_char d = char_of (48 + d)"

fun str_nat :: "nat \<Rightarrow> string" where
  "str_nat n = (if n < 10 then [digit_char n] else str_nat (n div 10) @ [digit_char (n mod 10)])"

declare str_nat.simps [simp del]

definition str_int :: "int \<Rightarrow> string" where
  "str_int i = (if i < 0 then CHR ''-'' # str_nat (nat (- i)) else str_nat (nat i))"

text \<open>\<open>str(x)\<close> for \<open>x: int | None\<close>.\<close>

definition str_opt_int :: "int option \<Rightarrow> string" where
  "str_opt_int p = (case p of None \<Rightarrow> ''None'' | Some i \<Rightarrow> str_int i)"

fun join_with :: "string \<Rightarrow> string list \<Rightarrow> string" where
  "join_with sep [] = []"
| "join_with sep [x] = x"
| "join_with sep (x # y # ys) = x @ sep @ join_with sep (y # ys)"

definition newline :: char where
  "newline = CHR 0x0A"

definition rstrip_nl :: "string \<Rightarrow> string" where
  "rstrip_nl s = rev (dropWhile (\<lambda>c. c = newline) (rev s))"

definition is_space :: "char \<Rightarrow> bool" where
  "is_space c = ((of_char c :: nat) \<in> {9, 10, 11, 12, 13, 28, 29, 30, 31, 32})"

definition strip :: "string \<Rightarrow> string" where
  "strip s = rev (dropWhile is_space (rev (dropWhile is_space s)))"

definition lower_char :: "char \<Rightarrow> char" where
  "lower_char c = (let n = (of_char c :: nat) in if 65 \<le> n \<and> n \<le> 90 then char_of (n + 32) else c)"

definition lower :: "string \<Rightarrow> string" where
  "lower s = map lower_char s"

fun contains :: "string \<Rightarrow> string \<Rightarrow> bool" where
  "contains q [] = (q = [])"
| "contains q (c # cs) = (take (length q) (c # cs) = q \<or> contains q cs)"

text \<open>Truthiness of a \<open>str | None\<close> value: \<open>None\<close> and \<open>""\<close> are falsy.\<close>

definition truthy :: "string option \<Rightarrow> bool" where
  "truthy a = (a \<noteq> None \<and> a \<noteq> Some [])"

text \<open>\<open>a or d\<close> for \<open>a: str | None\<close>.\<close>

definition or_else :: "string option \<Rightarrow> string \<Rightarrow> string" where
  "or_else a d = (case a of None \<Rightarrow> d | Some s \<Rightarrow> if s = [] then d else s)"

datatype py_error =
    IndexError
  | CellDoesNotExist
  | CancelledError
  | CommandError string
  | ProbeError

section \<open>Data model\<close>

text \<open>
  \<open>Service\<close> is declared in \<open>models.py\<close>; the fields are the attributes that
  \<open>app.py\<close> reads and writes. \<open>active\<close> is a string that \<open>app.py\<close> tests for
  truthiness, \<open>pid\<close> is \<open>int | None\<close>, \<open>updated_at\<close> is a \<open>time.time()\<close> reading
  or \<open>None\<close>; a clock reading is an integer here.
\<close>

record service =
  name :: string
  unit :: string
  project :: "string option"
  dir :: string
  runlog :: "string option"
  active :: "string option"
  pid :: "int option"
  updated_at :: "int option"

text \<open>
  A table cell is a string, except that the result of
  \<open>time.strftime("%H:%M:%S", time.localtime(t))\<close> is kept as \<open>Clock t\<close>.
\<close>

datatype cell = Text string | Clock int

datatype task_status = Pending | Running | Finished

record follow_run =
  fr_argv :: "string list"
  fr_cwd :: string
  fr_status :: task_status

text \<open>
  Observable actions, in the order the program performs them: attribute writes on a
  \<open>Service\<close> object, \<open>DataTable.update_cell_at\<close> calls, \<open>run_command\<close> calls, and the
  life cycle of follow tasks.
\<close>

datatype effect =
    SetActive nat "string option"
  | SetPid nat "int option"
  | SetUpdatedAt nat int
  | UpdateCell nat nat cell
  | RunCommand "string list" string
  | TaskCreated nat
  | TaskCancel nat
  | ProcSignalled nat
  | TaskDone nat

text \<open>
  The application object. \<open>services\<close> is \<open>state.services\<close>, a list of references
  into \<open>heap\<close>; \<open>rows\<close> is \<open>self._rows\<close>; \<open>table_rows\<close> and \<open>cursor_row\<close> are the
  \<open>DataTable\<close>; \<open>log_widget\<close> is the sequence of strings written to the \<open>RichLog\<close>
  since it was last cleared; \<open>tasks\<close> holds every follow task ever created and
  \<open>follow_task\<close> is \<open>self._follow_task\<close>.
\<close>

record app_state =
  services :: "nat list"
  heap :: "nat \<Rightarrow> service"
  next_addr :: nat
  selected_index :: nat
  filter_sel :: string
  search :: string
  columns_mode :: string
  table_rows :: "cell list list"
  cursor_row :: int
  log_widget :: "string list"
  rows :: "nat list"
  tasks :: "follow_run list"
  follow_task :: "nat option"
  effects :: "effect list"

section \<open>Table rows\<close>

definition format_updated :: "service \<Rightarrow> cell" where
  "format_updated svc =
     (case updated_at svc of
        None \<Rightarrow> Text ''-''
      | Some t \<Rightarrow> if t = 0 then Text ''-'' else Clock t)"

text \<open>The cells \<open>_add_row\<close> passes to \<open>table.add_row\<close>.\<close>

definition row_cells :: "string \<Rightarrow> service \<Rightarrow> cell list" where
  "row_cells mode svc =
     (let status = or_else (active svc) ''?'' in
      if mode = ''full'' then
        [Text status, Text (name svc), Text (str_opt_int (pid svc)), Text (unit svc),
         Text (or_else (project svc) ''-''), Text (or_else (runlog svc) ''-''),
         format_updated svc]
      else
        [Text status, Text (name svc), Text (str_opt_int (pid svc))])"

definition add_row :: "nat \<Rightarrow> nat \<Rightarrow> app_state \<Rightarrow> app_state" where
  "add_row idx a st =
     st\<lparr>table_rows := table_rows st @ [row_cells (columns_mode st) (heap st a)]\<rparr>"

text \<open>\<open>table.update_cell_at((row, col), value)\<close>; a missing cell raises.\<close>

definition update_cell_at :: "nat \<Rightarrow> nat \<Rightarrow> cell \<Rightarrow> app_state \<Rightarrow> py_error option \<times> app_state" where
  "update_cell_at row col v st =
     (if row < length (table_rows st) \<and> col < length (table_rows st ! row) then
        (None, st\<lparr>table_rows := (table_rows st)[row := (table_rows st ! row)[col := v]],
                  effects := effects st @ [UpdateCell row col v]\<rparr>)
      else (Some CellDoesNotExist, st))"

fun update_cells :: "nat \<Rightarrow> (nat \<times> cell) list \<Rightarrow> app_state \<Rightarrow> py_error option \<times> app_state" where
  "update_cells row [] st = (None, st)"
| "update_cells row ((col, v) # cvs) st =
     (case update_cell_at row col v st of
        (Some e, st') \<Rightarrow> (Some e, st')
      | (None, st') \<Rightarrow> update_cells row cvs st')"

definition update_row_by_row :: "nat \<Rightarrow> nat \<Rightarrow> app_state \<Rightarrow> py_error option \<times> app_state" where
  "update_row_by_row row a st =
     (let svc = heap st a; status = or_else (active svc) ''?'' in
      update_cells row
        ([(0, Text status), (1, Text (name svc)), (2, Text (str_opt_int (pid svc)))] @
         (if columns_mode st = ''full'' then
            [(3, Text (unit svc)), (4, Text (or_else (project svc) ''-'')),
             (5, Text (or_else (runlog svc) ''-'')), (6, format_updated svc)]
          else []))
        st)"

section \<open>Log sink and notices\<close>

definition log_write :: "string \<Rightarrow> app_state \<Rightarrow> app_state" where
  "log_write s st = st\<lparr>log_widget := log_widget st @ [s]\<rparr>"

definition log_clear :: "app_state \<Rightarrow> app_state" where
  "log_clear st = st\<lparr>log_widget := []\<rparr>"

definition toast :: "string \<Rightarrow> app_state \<Rightarrow> app_state" where
  "toast msg st = log_write (''[note] '' @ msg) st"

text \<open>The f-strings \<open>f"$ {' '.join(argv)}\n"\<close> and \<open>f"\n[exit {rc}]"\<close>.\<close>

definition command_header :: "string list \<Rightarrow> string" where
  "command_header argv = ''$ '' @ join_with '' '' argv @ [newline]"

definition exit_annotation :: "int \<Rightarrow> string" where
  "exit_annotation rc = newline # ''[exit '' @ str_int rc @ '']''"

definition error_annotation :: "string \<Rightarrow> string" where
  "error_annotation msg = newline # ''[error: '' @ msg @ '']''"

definition emit :: "effect list \<Rightarrow> app_state \<Rightarrow> app_state" where
  "emit evs st = st\<lparr>effects := effects st @ evs\<rparr>"

section \<open>Command Runner\<close>

text \<open>
  Modelled from the spec: \<open>run_command\<close> of \<open>commands.py\<close>, which is not part of the
  sources at hand. Section 4.1: it spawns the process, hands every line of either
  output stream to that stream's callback as it arrives, and returns the exit code; if
  the executable cannot be spawned it raises instead. What the process does is the
  parameter \<open>proc_run\<close>; the callbacks act on whatever state the caller threads
  through them.
\<close>

datatype out_line = Stdout string | Stderr string

datatype proc_run = SpawnFails string | Exits "out_line list" int

fun line_text :: "out_line \<Rightarrow> string" where
  "line_text (Stdout l) = l"
| "line_text (Stderr l) = l"

fun deliver :: "(string \<Rightarrow> 's \<Rightarrow> 's) \<Rightarrow> (string \<Rightarrow> 's \<Rightarrow> 's) \<Rightarrow> out_line list \<Rightarrow> 's \<Rightarrow> 's" where
  "deliver on_out on_err [] s = s"
| "deliver on_out on_err (Stdout l # ls) s = deliver on_out on_err ls (on_out l s)"
| "deliver on_out on_err (Stderr l # ls) s = deliver on_out on_err ls (on_err l s)"

definition run_command ::
  "proc_run \<Rightarrow> (string \<Rightarrow> 's \<Rightarrow> 's) \<Rightarrow> (string \<Rightarrow> 's \<Rightarrow> 's) \<Rightarrow> 's \<Rightarrow> (py_error + int) \<times> 's" where
  "run_command p on_out on_err s =
     (case p of
        SpawnFails msg \<Rightarrow> (Inl (CommandError msg), s)
      | Exits ls rc \<Rightarrow> (Inr rc, deliver on_out on_err ls s))"

section \<open>One-Shot Executor\<close>

text \<open>
  \<open>_run_one_shot\<close>. The local list \<open>lines\<close> travels with the application state while
  the command runs: the callbacks \<open>_out\<close> and \<open>_err\<close> see the pair.
\<close>

definition one_shot_out :: "string \<Rightarrow> string list \<times> app_state \<Rightarrow> string list \<times> app_state" where
  "one_shot_out line = (\<lambda>(lines, st). (lines @ [rstrip_nl line], st))"

definition one_shot_err :: "string \<Rightarrow> string list \<times> app_state \<Rightarrow> string list \<times> app_state" where
  "one_shot_err line = (\<lambda>(lines, st). (lines @ [rstrip_nl line], st))"

text \<open>The state in which \<open>run_command\<close> is called: header written, buffer empty.\<close>

definition one_shot_begin :: "string list \<Rightarrow> nat \<Rightarrow> app_state \<Rightarrow> string list \<times> app_state" where
  "one_shot_begin argv a st =
     ([], emit [RunCommand argv (dir (heap st a))] (log_write (command_header argv) st))"

definition run_one_shot :: "proc_run \<Rightarrow> string list \<Rightarrow> nat \<Rightarrow> app_state \<Rightarrow> (py_error + int) \<times> app_state" where
  "run_one_shot p argv a st =
     (case run_command p one_shot_out one_shot_err (one_shot_begin argv a st) of
        (Inl e, (lines, st1)) \<Rightarrow> (Inl e, st1)
      | (Inr rc, (lines, st1)) \<Rightarrow>
          (Inr rc, log_write (exit_annotation rc) (fold log_write lines st1)))"

section \<open>Selection\<close>

text \<open>
  \<open>_selected_service\<close>, with the table mounted; \<open>cursor_row\<close> is an integer.
\<close>

definition selected_service :: "app_state \<Rightarrow> py_error + nat option" where
  "selected_service st =
     (let row = cursor_row st in
      if 0 \<le> row \<and> row < int (length (rows st)) then
        (let svc_idx = rows st ! nat row in
         if svc_idx < length (services st) then Inr (Some (services st ! svc_idx))
         else Inl IndexError)
      else Inr None)"

section \<open>Restart Sequencer\<close>

text \<open>
  \<open>action_do_restart\<close>. \<open>restart_sequence\<close> belongs to \<open>commands.py\<close> and is a
  parameter; \<open>procs k\<close> is what the \<open>k\<close>-th command does if it is run.
\<close>

definition emulating_notice :: string where
  "emulating_notice = ''Emulating restart: down '' @ [char_of (0xE2 :: nat), char_of (0x86 :: nat), char_of (0x92 :: nat)] @ '' up''"

fun restart_steps :: "(nat \<Rightarrow> proc_run) \<Rightarrow> nat \<Rightarrow> string list list \<Rightarrow> nat \<Rightarrow> app_state \<Rightarrow> py_error option \<times> app_state" where
  "restart_steps procs k [] a st = (None, st)"
| "restart_steps procs k (argv # rest) a st =
     (case run_one_shot (procs k) argv a st of
        (Inl e, st1) \<Rightarrow> (Some e, st1)
      | (Inr rc, st1) \<Rightarrow>
          if rc \<noteq> 0 then (None, st1) else restart_steps procs (Suc k) rest a st1)"

definition action_do_restart ::
  "(service \<Rightarrow> string list list) \<Rightarrow> (nat \<Rightarrow> proc_run) \<Rightarrow> app_state \<Rightarrow> py_error option \<times> app_state" where
  "action_do_restart restart_sequence procs st =
     (case selected_service st of
        Inl e \<Rightarrow> (Some e, st)
      | Inr None \<Rightarrow> (None, st)
      | Inr (Some a) \<Rightarrow>
          (let seq = restart_sequence (heap st a) in
           if seq = [] then (None, toast ''Restart not supported; missing targets'' st)
           else restart_steps procs 0 seq a
                  (if length seq = 2 then toast emulating_notice st else st)))"

section \<open>Follow Session Controller\<close>

definition set_status :: "nat \<Rightarrow> task_status \<Rightarrow> app_state \<Rightarrow> app_state" where
  "set_status t s st = st\<lparr>tasks := (tasks st)[t := (tasks st ! t)\<lparr>fr_status := s\<rparr>]\<rparr>"

text \<open>
  Modelled from the spec: what \<open>run_command\<close> (\<open>commands.py\<close>, not part of the sources
  at hand) does when the task \<open>t\<close> that is suspended in it is cancelled. Section 4.1:
  cancellation reaches the operating-system process, which has been signalled by the
  time the cancelled call is left.
\<close>

definition run_command_cancelled :: "nat \<Rightarrow> effect list" where
  "run_command_cancelled t = [ProcSignalled t]"

text \<open>
  Lines 273 to 276 of \<open>_start_follow\<close>: \<open>cancel()\<close> and \<open>await\<close> on the previous
  task when it is not done. A task suspended inside \<open>run_command\<close> receives
  \<open>CancelledError\<close> there; \<open>_runner\<close> catches it, so the task ends normally and the
  \<open>await\<close> returns. A task that has not taken its first step is cancelled before its
  body runs, and the \<open>await\<close> raises \<open>CancelledError\<close>, which \<open>suppress(Exception)\<close>
  lets through. Handlers run one at a time, so no other \<open>_start_follow\<close> runs during
  the \<open>await\<close>.
\<close>

definition cancel_previous :: "app_state \<Rightarrow> py_error option \<times> app_state" where
  "cancel_previous st =
     (case follow_task st of
        None \<Rightarrow> (None, st)
      | Some t \<Rightarrow>
          (case fr_status (tasks st ! t) of
             Finished \<Rightarrow> (None, st)
           | Running \<Rightarrow>
               (None, set_status t Finished
                        (emit ([TaskCancel t] @ run_command_cancelled t @ [TaskDone t]) st))
           | Pending \<Rightarrow>
               (Some CancelledError, set_status t Finished (emit [TaskCancel t, TaskDone t] st))))"

text \<open>\<open>asyncio.create_task(_runner())\<close>: the new task exists but has not run yet.\<close>

definition create_task :: "follow_run \<Rightarrow> app_state \<Rightarrow> app_state" where
  "create_task r st =
     emit [TaskCreated (length (tasks st))]
       (st\<lparr>tasks := tasks st @ [r], follow_task := Some (length (tasks st))\<rparr>)"

text \<open>\<open>follow_argv\<close> belongs to \<open>commands.py\<close> and is a parameter.\<close>

definition start_follow ::
  "(service \<Rightarrow> string list) \<Rightarrow> nat \<Rightarrow> bool \<Rightarrow> app_state \<Rightarrow> py_error option \<times> app_state" where
  "start_follow follow_argv a force_journal st =
     (case cancel_previous st of
        (Some e, st1) \<Rightarrow> (Some e, st1)
      | (None, st1) \<Rightarrow>
          (let st2 = log_clear st1;
               svc = heap st2 a;
               argv = (if force_journal then [''journalctl'', ''--user'', ''-f'', ''-u'', unit svc]
                       else follow_argv svc);
               st3 = log_write (command_header argv) st2
           in (None, create_task \<lparr>fr_argv = argv, fr_cwd = dir svc, fr_status = Pending\<rparr> st3)))"

text \<open>
  The body of \<open>_runner\<close>, one step of the task at a time: its first step calls
  \<open>run_command\<close>, which spawns the process or raises; then lines arrive and are written
  to the log; in the end the process exits and the exit annotation is written, or
  \<open>run_command\<close> raises and the error is written.
\<close>

definition runner_raise :: "nat \<Rightarrow> string \<Rightarrow> app_state \<Rightarrow> app_state" where
  "runner_raise t msg st =
     set_status t Finished (emit [TaskDone t] (log_write (error_annotation msg) st))"

definition runner_start :: "nat \<Rightarrow> string option \<Rightarrow> app_state \<Rightarrow> app_state" where
  "runner_start t spawn_error st =
     (let r = tasks st ! t;
          st1 = emit [RunCommand (fr_argv r) (fr_cwd r)] st
      in case spawn_error of
           None \<Rightarrow> set_status t Running st1
         | Some msg \<Rightarrow> runner_raise t msg st1)"

definition runner_line :: "nat \<Rightarrow> out_line \<Rightarrow> app_state \<Rightarrow> app_state" where
  "runner_line t l st = log_write (rstrip_nl (line_text l)) st"

definition runner_exit :: "nat \<Rightarrow> int \<Rightarrow> app_state \<Rightarrow> app_state" where
  "runner_exit t rc st = set_status t Finished (emit [TaskDone t] (log_write (exit_annotation rc) st))"

definition live :: "follow_run \<Rightarrow> bool" where
  "live r = (fr_status r \<noteq> Finished)"

text \<open>
  The states the follow machinery can be in: no task at the start, then any sequence
  of \<open>_start_follow\<close> calls, steps of follow tasks, and steps of the rest of the
  program, which never touch the tasks.
\<close>

inductive reachable :: "app_state \<Rightarrow> bool" where
  initial: "tasks st = [] \<Longrightarrow> follow_task st = None \<Longrightarrow> reachable st"
| started: "reachable st \<Longrightarrow> reachable (snd (start_follow follow_argv a force_journal st))"
| task_start: "reachable st \<Longrightarrow> t < length (tasks st) \<Longrightarrow> fr_status (tasks st ! t) = Pending
     \<Longrightarrow> reachable (runner_start t spawn_error st)"
| task_line: "reachable st \<Longrightarrow> t < length (tasks st) \<Longrightarrow> fr_status (tasks st ! t) = Running
     \<Longrightarrow> reachable (runner_line t l st)"
| task_exit: "reachable st \<Longrightarrow> t < length (tasks st) \<Longrightarrow> fr_status (tasks st ! t) = Running
     \<Longrightarrow> reachable (runner_exit t rc st)"
| task_raise: "reachable st \<Longrightarrow> t < length (tasks st) \<Longrightarrow> fr_status (tasks st ! t) = Running
     \<Longrightarrow> reachable (runner_raise t msg st)"
| elsewhere: "reachable st \<Longrightarrow> tasks st' = tasks st \<Longrightarrow> follow_task st' = follow_task st
     \<Longrightarrow> reachable st'"

section \<open>Status probes\<close>

text \<open>
  \<open>probe_status\<close> belongs to \<open>commands.py\<close>; what one call of it does is a parameter:
  it returns a pair, or (against its contract) raises.
\<close>

datatype probe_outcome = ProbeRaises | ProbeReturns "string option" "int option"

definition set_active :: "nat \<Rightarrow> string option \<Rightarrow> app_state \<Rightarrow> app_state" where
  "set_active a v st =
     emit [SetActive a v] (st\<lparr>heap := (heap st)(a := (heap st a)\<lparr>active := v\<rparr>)\<rparr>)"

definition set_pid :: "nat \<Rightarrow> int option \<Rightarrow> app_state \<Rightarrow> app_state" where
  "set_pid a v st =
     emit [SetPid a v] (st\<lparr>heap := (heap st)(a := (heap st a)\<lparr>pid := v\<rparr>)\<rparr>)"

definition set_updated_at :: "nat \<Rightarrow> int \<Rightarrow> app_state \<Rightarrow> app_state" where
  "set_updated_at a t st =
     emit [SetUpdatedAt a t] (st\<lparr>heap := (heap st)(a := (heap st a)\<lparr>updated_at := Some t\<rparr>)\<rparr>)"

subsection \<open>Periodic Refresh Loop\<close>

text \<open>
  \<open>probe_row\<close> up to the call of \<open>probe_status\<close>, once the semaphore has let it in:
  the two index reads.
\<close>

definition probe_row_lookup :: "nat \<Rightarrow> app_state \<Rightarrow> py_error + nat" where
  "probe_row_lookup row st =
     (if row < length (rows st) then
        (let idx = rows st ! row in
         if idx < length (services st) then Inr (services st ! idx) else Inl IndexError)
      else Inl IndexError)"

text \<open>\<open>probe_row\<close> from the return of \<open>probe_status\<close> on; \<open>a\<close> is the object \<open>svc\<close>.\<close>

definition probe_row_merge ::
  "nat \<Rightarrow> nat \<Rightarrow> string option \<Rightarrow> int option \<Rightarrow> int \<Rightarrow> app_state \<Rightarrow> py_error option \<times> app_state" where
  "probe_row_merge row a act p now st =
     (let c1 = (truthy act \<and> act \<noteq> active (heap st a));
          st1 = (if c1 then set_active a act st else st);
          c2 = (p \<noteq> None \<and> p \<noteq> pid (heap st1 a));
          st2 = (if c2 then set_pid a p st1 else st1)
      in if c1 \<or> c2 then update_row_by_row row a (set_updated_at a now st2)
         else (None, st2))"

text \<open>One whole \<open>probe_row\<close>, when nothing else runs while it waits for the probe.\<close>

definition probe_row :: "nat \<Rightarrow> probe_outcome \<Rightarrow> int \<Rightarrow> app_state \<Rightarrow> py_error option \<times> app_state" where
  "probe_row row outcome now st =
     (case probe_row_lookup row st of
        Inl e \<Rightarrow> (Some e, st)
      | Inr a \<Rightarrow>
          (case outcome of
             ProbeRaises \<Rightarrow> (Some ProbeError, st)
           | ProbeReturns act p \<Rightarrow> probe_row_merge row a act p now st))"

text \<open>
  \<open>asyncio.gather(*(probe_row(r) for r in rows))\<close> with the default
  \<open>return_exceptions=False\<close>: every child runs to its end whether or not another one
  raised, and the caller sees the first exception. The children are taken in row order,
  each one whole.
\<close>

fun gather_rows ::
  "(nat \<Rightarrow> probe_outcome) \<Rightarrow> (nat \<Rightarrow> int) \<Rightarrow> nat list \<Rightarrow> app_state \<Rightarrow> py_error option \<times> app_state" where
  "gather_rows probe now [] st = (None, st)"
| "gather_rows probe now (r # rs) st =
     (case probe_row r (probe r) (now r) st of
        (e, st1) \<Rightarrow>
          (case gather_rows probe now rs st1 of
             (e', st2) \<Rightarrow> ((if e = None then e' else e), st2)))"

text \<open>
  \<open>_periodic_status_refresh\<close>, driven by what happens at each turn of \<open>while True\<close>:
  the task is cancelled while it sleeps, or the sleep ends and the rows are probed.
  \<open>Sleeping\<close> is the loop waiting in \<open>asyncio.sleep(10)\<close> once the inputs are used up.
\<close>

datatype tick_input = Cancelled | Tick "nat \<Rightarrow> probe_outcome" "nat \<Rightarrow> int"

datatype loop_state = Stopped app_state | Sleeping app_state

fun periodic_status_refresh :: "tick_input list \<Rightarrow> app_state \<Rightarrow> loop_state" where
  "periodic_status_refresh [] st = Sleeping st"
| "periodic_status_refresh (Cancelled # ins) st = Stopped st"
| "periodic_status_refresh (Tick probe now # ins) st =
     (case gather_rows probe now [0..<length (rows st)] st of
        (None, st1) \<Rightarrow> periodic_status_refresh ins st1
      | (Some e, st1) \<Rightarrow>
          if e = CancelledError then Stopped st1 else periodic_status_refresh ins st1)"

subsection \<open>On-demand probe\<close>

text \<open>\<open>_on_row_highlighted\<close> from the return of \<open>probe_status\<close> on.\<close>

definition on_row_highlighted_resume ::
  "(service \<Rightarrow> string list) \<Rightarrow> nat \<Rightarrow> nat \<Rightarrow> string option \<Rightarrow> int option \<Rightarrow> app_state
     \<Rightarrow> py_error option \<times> app_state" where
  "on_row_highlighted_resume follow_argv row a act p st =
     (let st1 = (if truthy act then
                   (let s = set_active a act st in if p \<noteq> None then set_pid a p s else s)
                 else st)
      in case update_row_by_row row a st1 of
           (Some e, st2) \<Rightarrow> (Some e, st2)
         | (None, st2) \<Rightarrow> start_follow follow_argv a False st2)"

text \<open>
  \<open>_on_row_highlighted\<close>; \<open>ev_row\<close> is the row the event carries, if it carries one.
\<close>

definition on_row_highlighted ::
  "(service \<Rightarrow> string list) \<Rightarrow> int option \<Rightarrow> probe_outcome \<Rightarrow> app_state \<Rightarrow> py_error option \<times> app_state" where
  "on_row_highlighted follow_argv ev_row outcome st =
     (let row = (case ev_row of None \<Rightarrow> cursor_row st | Some r \<Rightarrow> r) in
      if \<not> (0 \<le> row \<and> row < int (length (rows st))) then (None, st)
      else
        (let idx = rows st ! nat row;
             st1 = st\<lparr>selected_index := idx\<rparr>
         in if idx < length (services st1) then
              (case outcome of
                 ProbeRaises \<Rightarrow> (Some ProbeError, st1)
               | ProbeReturns act p \<Rightarrow>
                   on_row_highlighted_resume follow_argv (nat row) (services st1 ! idx) act p st1)
            else (None, st1)))"

section \<open>Visible rows and registry replacement\<close>

definition matches_search :: "app_state \<Rightarrow> service \<Rightarrow> bool" where
  "matches_search st svc =
     (let q = lower (strip (search st)) in
      if q = [] then True
      else
        (let hay = join_with '' '' (filter (\<lambda>s. s \<noteq> []) [name svc, unit svc, or_else (project svc) []])
         in contains q (lower hay)))"

definition matches_filter :: "app_state \<Rightarrow> service \<Rightarrow> bool" where
  "matches_filter st svc =
     (let f = filter_sel st; a = lower (or_else (active svc) []) in
      if f = ''all'' then True
      else if f = ''active'' then a = ''active''
      else if f = ''failed'' then a = ''failed''
      else True)"

definition visible_indices :: "app_state \<Rightarrow> nat list" where
  "visible_indices st =
     filter (\<lambda>i. matches_search st (heap st (services st ! i)) \<and> matches_filter st (heap st (services st ! i)))
       [0..<length (services st)]"

definition select_row :: "nat \<Rightarrow> app_state \<Rightarrow> app_state" where
  "select_row row_index st =
     (if row_index < length (rows st) then
        st\<lparr>cursor_row := int row_index, selected_index := rows st ! row_index\<rparr>
      else st)"

text \<open>\<open>list.index\<close>; \<open>None\<close> stands for \<open>ValueError\<close>.\<close>

fun index_of :: "nat \<Rightarrow> nat list \<Rightarrow> nat option" where
  "index_of x [] = None"
| "index_of x (y # ys) = (if x = y then Some 0 else map_option Suc (index_of x ys))"

definition rebuild_table :: "bool \<Rightarrow> app_state \<Rightarrow> app_state" where
  "rebuild_table select_same st =
     (let cur_idx = selected_index st;
          st1 = st\<lparr>table_rows := [], cursor_row := 0, rows := []\<rparr>;
          st2 = fold (\<lambda>idx s. (add_row idx (services s ! idx) s)\<lparr>rows := rows s @ [idx]\<rparr>)
                  (visible_indices st1) st1
      in if select_same \<and> rows st2 \<noteq> [] then
           select_row (case index_of cur_idx (rows st2) of None \<Rightarrow> 0 | Some row \<Rightarrow> row) st2
         else st2)"

text \<open>
  \<open>self.state.services = discover_services(...)\<close>: \<open>discover_services\<close> belongs to
  \<open>discovery.py\<close>; the list it returns is a parameter, and its elements are new objects.
\<close>

definition replace_services :: "service list \<Rightarrow> app_state \<Rightarrow> app_state" where
  "replace_services ds st =
     st\<lparr>services := [next_addr st..<next_addr st + length ds],
        heap := (\<lambda>a. if next_addr st \<le> a \<and> a < next_addr st + length ds
                      then ds ! (a - next_addr st) else heap st a),
        next_addr := next_addr st + length ds\<rparr>"

definition action_do_refresh :: "service list \<Rightarrow> app_state \<Rightarrow> app_state" where
  "action_do_refresh discovered st =
     (let st1 = rebuild_table True (replace_services discovered st) in
      if services st1 \<noteq> [] then
        (if rows st1 = [] then st1 else select_row 0 st1)
      else st1)"

definition ends_with :: "string \<Rightarrow> string \<Rightarrow> bool" where
  "ends_with s suffix = (length suffix \<le> length s \<and> drop (length s - length suffix) s = suffix)"

definition on_tabs_changed :: "string option \<Rightarrow> app_state \<Rightarrow> app_state" where
  "on_tabs_changed tab st =
     (let tab_id = or_else tab ''tab-all'';
          st1 = (if ends_with tab_id ''all'' then st\<lparr>filter_sel := ''all''\<rparr>
                 else if ends_with tab_id ''active'' then st\<lparr>filter_sel := ''active''\<rparr>
                 else if ends_with tab_id ''failed'' then st\<lparr>filter_sel := ''failed''\<rparr>
                 else st)
      in rebuild_table True st1)"

section \<open>Concrete services and states\<close>

definition svc_web :: service where
  "svc_web = \<lparr>name = ''web'', unit = ''web.service'', project = None, dir = ''/srv/web'',
              runlog = None, active = Some ''inactive'', pid = Some 1234, updated_at = None\<rparr>"

definition svc_db :: service where
  "svc_db = \<lparr>name = ''db'', unit = ''db.service'', project = Some ''core'', dir = ''/srv/db'',
             runlog = None, active = Some ''active'', pid = Some 7, updated_at = None\<rparr>"

text \<open>One service, one visible row, nothing followed yet.\<close>

definition app_one :: "service \<Rightarrow> app_state" where
  "app_one svc =
     \<lparr>services = [0], heap = (\<lambda>_. svc), next_addr = 1, selected_index = 0,
      filter_sel = ''all'', search = [], columns_mode = ''minimal'',
      table_rows = [row_cells ''minimal'' svc], cursor_row = 0, log_widget = [],
      rows = [0], tasks = [], follow_task = None, effects = []\<rparr>"

text \<open>Five services, all visible.\<close>

definition app_five :: app_state where
  "app_five =
     \<lparr>services = [0, 1, 2, 3, 4], heap = (\<lambda>_. svc_db), next_addr = 5, selected_index = 0,
      filter_sel = ''all'', search = [], columns_mode = ''minimal'',
      table_rows = replicate 5 (row_cells ''minimal'' svc_db), cursor_row = 0, log_widget = [],
      rows = [0, 1, 2, 3, 4], tasks = [], follow_task = None, effects = []\<rparr>"

text \<open>
  The one service is being followed: the follow task has been created and has taken its
  first step, so its process runs.
\<close>

definition app_following :: app_state where
  "app_following =
     runner_start 0 None (snd (start_follow (\<lambda>svc. [''journalctl'', ''-f'']) 0 False (app_one svc_web)))"

section \<open>Vocabulary of the properties\<close>

text \<open>The argument vectors of the \<open>run_command\<close> calls in a sequence of actions.\<close>

fun commands_run :: "effect list \<Rightarrow> string list list" where
  "commands_run [] = []"
| "commands_run (RunCommand argv cwd # evs) = argv # commands_run evs"
| "commands_run (e # evs) = commands_run evs"

fun exit_code :: "proc_run \<Rightarrow> int option" where
  "exit_code (Exits ls rc) = Some rc"
| "exit_code (SpawnFails msg) = None"

text \<open>Attribute writes on \<open>Service\<close> objects, as opposed to every other action.\<close>

fun is_field_write :: "effect \<Rightarrow> bool" where
  "is_field_write (SetActive a v) = True"
| "is_field_write (SetPid a v) = True"
| "is_field_write (SetUpdatedAt a t) = True"
| "is_field_write e = False"

text \<open>
  What a run of the restart steps \<open>seq\<close> has to look like, \<open>m\<close> being the position of
  the step after which it ended: the commands run are the steps up to \<open>m\<close> in order,
  every step before \<open>m\<close> exited with 0, step \<open>m\<close> is the last one unless it did not
  exit with 0, and the last string in the log is the exit annotation of step \<open>m\<close>
  (when that step could not be spawned, its error is raised instead).
\<close>

definition restart_outcome ::
  "(nat \<Rightarrow> proc_run) \<Rightarrow> nat \<Rightarrow> string list list \<Rightarrow> app_state \<Rightarrow> py_error option \<times> app_state \<Rightarrow> nat \<Rightarrow> bool" where
  "restart_outcome procs k seq st res m =
     (m < length seq \<and>
      commands_run (effects (snd res)) = commands_run (effects st) @ take (Suc m) seq \<and>
      (\<forall>j. j < m \<longrightarrow> exit_code (procs (k + j)) = Some 0) \<and>
      (Suc m < length seq \<longrightarrow> exit_code (procs (k + m)) \<noteq> Some 0) \<and>
      (case procs (k + m) of
         Exits ls rc \<Rightarrow> fst res = None \<and> last (log_widget (snd res)) = exit_annotation rc
       | SpawnFails msg \<Rightarrow> fst res = Some (CommandError msg)))"

text \<open>
  A \<open>Service\<close> object after the periodic refresh has written what a probe result
  carries: a truthy state, a process id that is not \<open>None\<close>, and the time.
\<close>

definition merged :: "service \<Rightarrow> string option \<Rightarrow> int option \<Rightarrow> int \<Rightarrow> service" where
  "merged svc act p now =
     svc\<lparr>active := (if truthy act then act else active svc),
         pid := (if p \<noteq> None then p else pid svc),
         updated_at := Some now\<rparr>"

text \<open>
  Every follow task that is not done is the one \<open>self._follow_task\<close> refers to.
\<close>

definition single_flight :: "app_state \<Rightarrow> bool" where
  "single_flight st =
     ((case follow_task st of None \<Rightarrow> True | Some t \<Rightarrow> t < length (tasks st)) \<and>
      (\<forall>i. i < length (tasks st) \<and> live (tasks st ! i) \<longrightarrow> follow_task st = Some i))"

text \<open>No follow task is running or waiting to run.\<close>

definition all_done :: "app_state \<Rightarrow> bool" where
  "all_done st = (\<forall>i. i < length (tasks st) \<longrightarrow> \<not> live (tasks st ! i))"

section \<open>Rendering of process ids\<close>

lemma digit_char_neq_N: "d < 10 \<Longrightarrow> digit_char d \<noteq> CHR ''N''"
proof
  assume d: "d < 10" and eq: "digit_char d = CHR ''N''"
  have "(of_char (digit_char d) :: nat) = (48 + d) mod 256"
    by (simp add: digit_char_def)
  moreover have "(of_char (CHR ''N'') :: nat) = 78" by simp
  ultimately have "(48 + d) mod 256 = 78" using eq by simp
  with d show False by simp
qed

lemma str_nat_no_N: "CHR ''N'' \<notin> set (str_nat n)"
proof (induction n rule: str_nat.induct)
  case (1 n)
  show ?case
  proof (cases "n < 10")
    case True
    then show ?thesis using digit_char_neq_N [of n] by (subst str_nat.simps) auto
  next
    case False
    then show ?thesis using 1 digit_char_neq_N [of "n mod 10"]
      by (subst str_nat.simps) auto
  qed
qed

lemma str_opt_int_None: "str_opt_int p = ''None'' \<longleftrightarrow> p = None"
proof (cases p)
  case None
  then show ?thesis by (simp add: str_opt_int_def)
next
  case (Some i)
  have "CHR ''N'' \<notin> set (str_int i)"
    using str_nat_no_N by (auto simp: str_int_def)
  moreover have "CHR ''N'' \<in> set ''None''" by simp
  ultimately have "str_int i \<noteq> ''None''" by metis
  then show ?thesis using Some by (simp add: str_opt_int_def)
qed

text \<open>Different integers have different decimal renderings.\<close>

lemma digit_char_inj: "d < 10 \<Longrightarrow> e < 10 \<Longrightarrow> digit_char d = digit_char e \<Longrightarrow> d = e"
proof -
  assume d: "d < 10" and e: "e < 10" and eq: "digit_char d = digit_char e"
  have "(of_char (digit_char d) :: nat) = (48 + d) mod 256"
    and "(of_char (digit_char e) :: nat) = (48 + e) mod 256"
    by (simp_all add: digit_char_def)
  with eq have "(48 + d) mod 256 = (48 + e) mod 256" by simp
  with d e show ?thesis by simp
qed

lemma digit_char_not_minus: "d < 10 \<Longrightarrow> digit_char d \<noteq> CHR ''-''"
proof
  assume d: "d < 10" and eq: "digit_char d = CHR ''-''"
  have "(of_char (digit_char d) :: nat) = (48 + d) mod 256"
    by (simp add: digit_char_def)
  moreover have "(of_char (CHR ''-'') :: nat) = 45" by simp
  ultimately have "(48 + d) mod 256 = 45" using eq by simp
  with d show False by simp
qed

lemma str_nat_nonempty: "str_nat n \<noteq> []"
  by (subst str_nat.simps) simp

lemma str_nat_inj: "str_nat n = str_nat m \<Longrightarrow> n = m"
proof (induction n arbitrary: m rule: str_nat.induct)
  case (1 n)
  show ?case
  proof (cases "n < 10")
    case True
    note n = True
    show ?thesis
    proof (cases "m < 10")
      case True
      with n 1(2) have "digit_char n = digit_char m"
        by (simp add: str_nat.simps [of n] str_nat.simps [of m])
      then show ?thesis using n True by (rule digit_char_inj [rotated 2])
    next
      case False
      with n 1(2) have "[digit_char n] = str_nat (m div 10) @ [digit_char (m mod 10)]"
        by (simp add: str_nat.simps [of n] str_nat.simps [of m])
      then have "str_nat (m div 10) = []" by (simp add: Cons_eq_append_conv)
      then show ?thesis using str_nat_nonempty by simp
    qed
  next
    case False
    note n = False
    show ?thesis
    proof (cases "m < 10")
      case True
      with n 1(2) have "str_nat (n div 10) @ [digit_char (n mod 10)] = [digit_char m]"
        by (simp add: str_nat.simps [of n] str_nat.simps [of m])
      then have "str_nat (n div 10) = []" by (simp add: append_eq_Cons_conv)
      then show ?thesis using str_nat_nonempty by simp
    next
      case False
      with n 1(2) have "str_nat (n div 10) @ [digit_char (n mod 10)] = str_nat (m div 10) @ [digit_char (m mod 10)]"
        by (simp add: str_nat.simps [of n] str_nat.simps [of m])
      then have a: "str_nat (n div 10) = str_nat (m div 10)" and b: "digit_char (n mod 10) = digit_char (m mod 10)"
        by simp_all
      from 1(1) [OF n a] have "n div 10 = m div 10" .
      moreover from b have "n mod 10 = m mod 10"
        by (rule digit_char_inj [rotated 2]) simp_all
      ultimately show ?thesis by (metis div_mult_mod_eq)
    qed
  qed
qed

lemma str_nat_no_minus: "hd (str_nat n) \<noteq> CHR ''-''"
proof (induction n rule: str_nat.induct)
  case (1 n)
  show ?case
  proof (cases "n < 10")
    case True
    then show ?thesis using digit_char_not_minus [of n] by (subst str_nat.simps) simp
  next
    case False
    then show ?thesis using 1 str_nat_nonempty [of "n div 10"]
      by (subst str_nat.simps) (simp add: hd_append)
  qed
qed

lemma str_int_inj: "str_int i = str_int j \<Longrightarrow> i = j"
proof -
  assume eq: "str_int i = str_int j"
  have neg: "False" if "a < 0" "\<not> b < 0" "str_int a = str_int b" for a b
  proof -
    from that have "CHR ''-'' # str_nat (nat (- a)) = str_nat (nat b)"
      by (simp add: str_int_def)
    then have "hd (str_nat (nat b)) = CHR ''-''" by (metis list.sel(1))
    then show False using str_nat_no_minus by blast
  qed
  show ?thesis
  proof (cases "i < 0")
    case True
    show ?thesis
    proof (cases "j < 0")
      case j: True
      with True eq have "str_nat (nat (- i)) = str_nat (nat (- j))" by (simp add: str_int_def)
      then have "nat (- i) = nat (- j)" by (rule str_nat_inj)
      then show ?thesis using True j by simp
    next
      case False
      then show ?thesis using neg [OF True False eq] by simp
    qed
  next
    case False
    show ?thesis
    proof (cases "j < 0")
      case True
      then show ?thesis using neg [OF True False eq [symmetric]] by simp
    next
      case j: False
      with False eq have "str_nat (nat i) = str_nat (nat j)" by (simp add: str_int_def)
      then have "nat i = nat j" by (rule str_nat_inj)
      then show ?thesis using False j by simp
    qed
  qed
qed

lemma str_int_1234: "str_int 1234 = ''1234''"
  by code_simp

lemma row_cells_pid: "row_cells mode svc ! 2 = Text (str_opt_int (pid svc))"
  by (simp add: row_cells_def Let_def)

text \<open>
  When the row exists and has the width of the column mode, \<open>_update_row_by_row\<close>
  replaces it by the cells \<open>_add_row\<close> would produce, one \<open>update_cell_at\<close> per cell.
\<close>

lemma update_row_ok:
  assumes "row < length (table_rows st)"
    and "length (table_rows st ! row) = length (row_cells (columns_mode st) (heap st a))"
  shows "update_row_by_row row a st =
           (None, st\<lparr>table_rows := (table_rows st)[row := row_cells (columns_mode st) (heap st a)],
                     effects := effects st @
                       map (\<lambda>(c, v). UpdateCell row c v)
                         (enumerate 0 (row_cells (columns_mode st) (heap st a)))\<rparr>)"
proof (cases "columns_mode st = ''full''")
  case True
  with assms(2) obtain c0 c1 c2 c3 c4 c5 c6 where "table_rows st ! row = [c0, c1, c2, c3, c4, c5, c6]"
    by (auto simp: row_cells_def Let_def length_Suc_conv)
  then show ?thesis using assms(1) True
    by (simp add: update_row_by_row_def update_cell_at_def row_cells_def Let_def)
next
  case False
  with assms(2) obtain c0 c1 c2 where "table_rows st ! row = [c0, c1, c2]"
    by (auto simp: row_cells_def Let_def length_Suc_conv)
  then show ?thesis using assms(1) False
    by (simp add: update_row_by_row_def update_cell_at_def row_cells_def Let_def)
qed

text \<open>
  C8, as stated: a service that is not \<open>active\<close> has its process id shown as absent.
  It fails: a service recorded as \<open>inactive\<close> with process id 1234 gets the PID cell
  \<open>1234\<close> from \<open>_add_row\<close> and from \<open>_update_row_by_row\<close>, not the rendering of an
  absent process id.
\<close>

theorem stale_pid_counterexample:
  "active svc_web \<noteq> Some ''active'' \<and>
   row_cells ''minimal'' svc_web ! 2 = Text ''1234'' \<and>
   table_rows (snd (update_row_by_row 0 0 (app_one svc_web))) ! 0 ! 2 = Text ''1234'' \<and>
   Text ''1234'' \<noteq> Text (str_opt_int None)"
  by (simp add: svc_web_def app_one_def row_cells_def update_row_by_row_def update_cell_at_def
      str_opt_int_def str_int_1234 or_else_def Let_def)

text \<open>
  C8, amended: whatever the activity state, the PID cell written by \<open>_add_row\<close> and by
  \<open>_update_row_by_row\<close> is \<open>str(svc.pid)\<close> of the recorded process id; it reads
  \<open>None\<close> exactly when the recorded process id is absent.
\<close>

theorem pid_cell_shows_recorded_pid:
  "row_cells mode svc ! 2 = Text (str_opt_int (pid svc)) \<and>
   (row < length (table_rows st) \<and>
    length (table_rows st ! row) = length (row_cells (columns_mode st) (heap st a)) \<longrightarrow>
      fst (update_row_by_row row a st) = None \<and>
      table_rows (snd (update_row_by_row row a st)) ! row ! 2 = Text (str_opt_int (pid (heap st a)))) \<and>
   (str_opt_int (pid svc) = ''None'' \<longleftrightarrow> pid svc = None)"
  using update_row_ok [of row st a]
  by (auto simp: row_cells_pid str_opt_int_None)

text \<open>The service recorded as \<open>inactive\<close> with process id 1234, in a table of one row.\<close>

theorem pid_cell_shows_recorded_pid_witness:
  "row_cells ''minimal'' svc_web ! 2 = Text ''1234'' \<and>
   0 < length (table_rows (app_one svc_web)) \<and>
   table_rows (snd (update_row_by_row 0 0 (app_one svc_web))) ! 0 ! 2 = Text ''1234''"
  using pid_cell_shows_recorded_pid [of "''minimal''" svc_web 0 "app_one svc_web" 0]
  by (simp add: svc_web_def app_one_def row_cells_def str_opt_int_def str_int_1234 Let_def)

section \<open>One-shot execution\<close>

lemma deliver_one_shot:
  "deliver one_shot_out one_shot_err ls (buf, st) = (buf @ map (rstrip_nl \<circ> line_text) ls, st)"
proof (induction ls arbitrary: buf)
  case Nil
  then show ?case by simp
next
  case (Cons l ls)
  then show ?case by (cases l) (simp_all add: one_shot_out_def one_shot_err_def)
qed

lemma fold_log_write: "fold log_write ls st = st\<lparr>log_widget := log_widget st @ ls\<rparr>"
  by (induction ls arbitrary: st) (simp_all add: log_write_def)

lemma run_one_shot_exits:
  "run_one_shot (Exits ls rc) argv a st =
     (Inr rc, st\<lparr>log_widget := log_widget st @ [command_header argv] @
                        map (rstrip_nl \<circ> line_text) ls @ [exit_annotation rc],
                   effects := effects st @ [RunCommand argv (dir (heap st a))]\<rparr>)"
  by (simp add: run_one_shot_def run_command_def one_shot_begin_def deliver_one_shot
      fold_log_write log_write_def emit_def)

lemma run_one_shot_fails:
  "run_one_shot (SpawnFails msg) argv a st =
     (Inl (CommandError msg), st\<lparr>log_widget := log_widget st @ [command_header argv],
                   effects := effects st @ [RunCommand argv (dir (heap st a))]\<rparr>)"
  by (simp add: run_one_shot_def run_command_def one_shot_begin_def log_write_def emit_def)

lemma str_int_0: "str_int 0 = ''0''"
  by code_simp

lemma str_int_2: "str_int 2 = ''2''"
  by code_simp



section \<open>Restart\<close>

lemma commands_run_append: "commands_run (xs @ ys) = commands_run xs @ commands_run ys"
  by (induction xs rule: commands_run.induct) simp_all

lemma restart_steps_outcome:
  "seq \<noteq> [] \<Longrightarrow> \<exists>m. restart_outcome procs k seq st (restart_steps procs k seq a st) m"
proof (induction seq arbitrary: k st)
  case Nil
  then show ?case by simp
next
  case (Cons argv rest)
  show ?case
  proof (cases "procs k")
    case (SpawnFails msg)
    then have "restart_outcome procs k (argv # rest) st (restart_steps procs k (argv # rest) a st) 0"
      by (simp add: restart_outcome_def run_one_shot_fails commands_run_append)
    then show ?thesis ..
  next
    case (Exits ls rc)
    show ?thesis
    proof (cases "rc \<noteq> 0 \<or> rest = []")
      case True
      then have "restart_steps procs k (argv # rest) a st =
                   (None, st\<lparr>log_widget := log_widget st @ [command_header argv] @
                        map (rstrip_nl \<circ> line_text) ls @ [exit_annotation rc],
                   effects := effects st @ [RunCommand argv (dir (heap st a))]\<rparr>)"
        using Exits by (cases "rc = 0") (simp_all add: run_one_shot_exits)
      moreover have "Suc 0 < length (argv # rest) \<longrightarrow> rc \<noteq> 0"
        using True by (cases rest) simp_all
      ultimately have "restart_outcome procs k (argv # rest) st (restart_steps procs k (argv # rest) a st) 0"
        using Exits
        by (simp add: restart_outcome_def commands_run_append)
      then show ?thesis ..
    next
      case False
      then have rc: "rc = 0" and rest: "rest \<noteq> []" by auto
      define st1 where "st1 = st\<lparr>log_widget := log_widget st @ [command_header argv] @
                        map (rstrip_nl \<circ> line_text) ls @ [exit_annotation rc],
                   effects := effects st @ [RunCommand argv (dir (heap st a))]\<rparr>"
      have step: "restart_steps procs k (argv # rest) a st = restart_steps procs (Suc k) rest a st1"
        using Exits rc by (simp add: run_one_shot_exits st1_def)
      from Cons.IH [OF rest, of "Suc k" st1] obtain m
        where m: "restart_outcome procs (Suc k) rest st1 (restart_steps procs (Suc k) rest a st1) m" ..
      let ?res = "restart_steps procs (Suc k) rest a st1"
      from m have mlt: "m < length rest"
        and cmds: "commands_run (effects (snd ?res)) = commands_run (effects st1) @ take (Suc m) rest"
        and zeros: "\<And>j. j < m \<Longrightarrow> exit_code (procs (Suc k + j)) = Some 0"
        and stop: "Suc m < length rest \<Longrightarrow> exit_code (procs (Suc k + m)) \<noteq> Some 0"
        and fin: "(case procs (Suc k + m) of
                     Exits ls rc \<Rightarrow> fst ?res = None \<and> last (log_widget (snd ?res)) = exit_annotation rc
                   | SpawnFails msg \<Rightarrow> fst ?res = Some (CommandError msg))"
        by (simp_all add: restart_outcome_def)
      have c1: "commands_run (effects (snd ?res)) = commands_run (effects st) @ take (Suc (Suc m)) (argv # rest)"
        using cmds by (simp add: st1_def commands_run_append)
      have c2: "exit_code (procs (k + j)) = Some 0" if "j < Suc m" for j
      proof (cases j)
        case 0
        then show ?thesis using Exits rc by simp
      next
        case (Suc j')
        then have "j' < m" using that by simp
        from zeros [OF this] show ?thesis using Suc by simp
      qed
      have c3: "exit_code (procs (k + Suc m)) \<noteq> Some 0" if "Suc (Suc m) < length (argv # rest)"
        using stop that by simp
      have c4: "(case procs (k + Suc m) of
                     Exits ls rc \<Rightarrow> fst ?res = None \<and> last (log_widget (snd ?res)) = exit_annotation rc
                   | SpawnFails msg \<Rightarrow> fst ?res = Some (CommandError msg))"
        using fin by simp
      have "restart_outcome procs k (argv # rest) st ?res (Suc m)"
        unfolding restart_outcome_def
        using mlt c1 c2 c3 c4 by simp
      then have "restart_outcome procs k (argv # rest) st (restart_steps procs k (argv # rest) a st) (Suc m)"
        unfolding step .
      then show ?thesis ..
    qed
  qed
qed

lemma selected_app_one: "selected_service (app_one svc) = Inr (Some 0)"
  by (simp add: selected_service_def app_one_def)

text \<open>
  C3: a restart of the selected service whose sequence is not empty. There is a step
  \<open>m\<close> of the sequence such that the commands run by the action are exactly the steps
  up to \<open>m\<close>, in the order of the sequence; every step before \<open>m\<close> exited with 0; step
  \<open>m\<close> is the last step of the sequence unless it did not exit with 0; and when step
  \<open>m\<close> exited with code \<open>rc\<close>, the last string written to the log is a newline
  followed by \<open>[exit \<close>, the decimal digits of \<open>rc\<close> and \<open>]\<close>, which is the annotation
  of no other exit code (a step that cannot be spawned raises its error instead).
\<close>

theorem restart_runs_in_order_until_failure:
  assumes "selected_service st = Inr (Some a)"
    and "restart_sequence (heap st a) = seq"
    and "seq \<noteq> []"
    and "res = action_do_restart restart_sequence procs st"
  shows "\<exists>m. m < length seq \<and>
      commands_run (effects (snd res)) = commands_run (effects st) @ take (Suc m) seq \<and>
      (\<forall>j. j < m \<longrightarrow> exit_code (procs j) = Some 0) \<and>
      (Suc m < length seq \<longrightarrow> exit_code (procs m) \<noteq> Some 0) \<and>
      (case procs m of
         Exits ls rc \<Rightarrow>
           fst res = None \<and>
           last (log_widget (snd res)) = CHR 0x0A # ''[exit '' @ str_int rc @ '']'' \<and>
           (\<forall>rc'. last (log_widget (snd res)) = CHR 0x0A # ''[exit '' @ str_int rc' @ '']''
                    \<longrightarrow> rc' = rc)
       | SpawnFails msg \<Rightarrow> fst res = Some (CommandError msg))"
proof -
  let ?st0 = "if length seq = 2 then toast emulating_notice st else st"
  have run: "res = restart_steps procs 0 seq a ?st0"
    using assms by (simp add: action_do_restart_def Let_def)
  have eff: "effects ?st0 = effects st"
    by (simp add: toast_def log_write_def)
  from restart_steps_outcome [OF assms(3), of procs 0 ?st0 a] obtain m
    where "restart_outcome procs 0 seq ?st0 res m"
    unfolding run ..
  then have m: "m < length seq"
    and cmds: "commands_run (effects (snd res)) = commands_run (effects st) @ take (Suc m) seq"
    and zeros: "\<forall>j. j < m \<longrightarrow> exit_code (procs j) = Some 0"
    and stop: "Suc m < length seq \<longrightarrow> exit_code (procs m) \<noteq> Some 0"
    and fin: "(case procs m of
         Exits ls rc \<Rightarrow> fst res = None \<and> last (log_widget (snd res)) = exit_annotation rc
       | SpawnFails msg \<Rightarrow> fst res = Some (CommandError msg))"
    unfolding restart_outcome_def eff by simp_all
  have fin': "(case procs m of
         Exits ls rc \<Rightarrow>
           fst res = None \<and>
           last (log_widget (snd res)) = CHR 0x0A # ''[exit '' @ str_int rc @ '']'' \<and>
           (\<forall>rc'. last (log_widget (snd res)) = CHR 0x0A # ''[exit '' @ str_int rc' @ '']''
                    \<longrightarrow> rc' = rc)
       | SpawnFails msg \<Rightarrow> fst res = Some (CommandError msg))"
  proof (cases "procs m")
    case (SpawnFails msg)
    then show ?thesis using fin by simp
  next
    case (Exits ls rc)
    with fin have ok: "fst res = None"
      and l: "last (log_widget (snd res)) = CHR 0x0A # ''[exit '' @ str_int rc @ '']''"
      by (simp_all add: exit_annotation_def newline_def)
    have "rc' = rc" if "last (log_widget (snd res)) = CHR 0x0A # ''[exit '' @ str_int rc' @ '']''" for rc'
    proof -
      from that l have "str_int rc' = str_int rc" by simp
      then show ?thesis by (rule str_int_inj)
    qed
    with ok l show ?thesis using Exits by simp
  qed
  from m cmds zeros stop fin' show ?thesis by blast
qed

text \<open>
  The sequence \<open>down\<close>, \<open>up\<close> where \<open>down\<close> exits with 2: only \<open>down\<close> is run, the
  action returns normally, and the log ends with a newline followed by \<open>[exit 2]\<close>.
\<close>

theorem restart_runs_in_order_until_failure_witness:
  "selected_service (app_one svc_web) = Inr (Some 0) \<and>
   commands_run (effects (snd (action_do_restart (\<lambda>svc. [[''make'', ''down''], [''make'', ''up'']])
       (\<lambda>k. Exits [] (if k = 0 then 2 else 0)) (app_one svc_web)))) = [[''make'', ''down'']] \<and>
   fst (action_do_restart (\<lambda>svc. [[''make'', ''down''], [''make'', ''up'']])
       (\<lambda>k. Exits [] (if k = 0 then 2 else 0)) (app_one svc_web)) = None \<and>
   last (log_widget (snd (action_do_restart (\<lambda>svc. [[''make'', ''down''], [''make'', ''up'']])
       (\<lambda>k. Exits [] (if k = 0 then 2 else 0)) (app_one svc_web)))) = CHR 0x0A # ''[exit 2]''"
proof -
  let ?seq = "[[''make'', ''down''], [''make'', ''up'']]"
  let ?rs = "\<lambda>svc :: service. ?seq"
  let ?procs = "\<lambda>k :: nat. Exits [] (if k = 0 then 2 else 0)"
  let ?res = "action_do_restart ?rs ?procs (app_one svc_web)"
  have sel: "selected_service (app_one svc_web) = Inr (Some 0)"
    by (rule selected_app_one)
  have "\<exists>m. m < length ?seq \<and>
      commands_run (effects (snd ?res)) = commands_run (effects (app_one svc_web)) @ take (Suc m) ?seq \<and>
      (\<forall>j. j < m \<longrightarrow> exit_code (?procs j) = Some 0) \<and>
      (Suc m < length ?seq \<longrightarrow> exit_code (?procs m) \<noteq> Some 0) \<and>
      (case ?procs m of
         Exits ls rc \<Rightarrow>
           fst ?res = None \<and>
           last (log_widget (snd ?res)) = CHR 0x0A # ''[exit '' @ str_int rc @ '']'' \<and>
           (\<forall>rc'. last (log_widget (snd ?res)) = CHR 0x0A # ''[exit '' @ str_int rc' @ '']''
                    \<longrightarrow> rc' = rc)
       | SpawnFails msg \<Rightarrow> fst ?res = Some (CommandError msg))"
    by (rule restart_runs_in_order_until_failure [OF sel]) simp_all
  then obtain m where m: "m < length ?seq"
    and cmds: "commands_run (effects (snd ?res)) =
        commands_run (effects (app_one svc_web)) @ take (Suc m) ?seq"
    and zeros: "\<forall>j. j < m \<longrightarrow> exit_code (?procs j) = Some 0"
    and fin: "(case ?procs m of
         Exits ls rc \<Rightarrow>
           fst ?res = None \<and>
           last (log_widget (snd ?res)) = CHR 0x0A # ''[exit '' @ str_int rc @ '']'' \<and>
           (\<forall>rc'. last (log_widget (snd ?res)) = CHR 0x0A # ''[exit '' @ str_int rc' @ '']''
                    \<longrightarrow> rc' = rc)
       | SpawnFails msg \<Rightarrow> fst ?res = Some (CommandError msg))"
    by blast
  have m0: "m = 0"
  proof (rule ccontr)
    assume "m \<noteq> 0"
    then have "0 < m" by simp
    with zeros have "exit_code (?procs 0) = Some 0" by blast
    then show False by simp
  qed
  have e0: "commands_run (effects (app_one svc_web)) = []"
    by (simp add: app_one_def)
  have b: "commands_run (effects (snd ?res)) = [[''make'', ''down'']]"
    using cmds unfolding e0 m0 by simp
  have c: "fst ?res = None"
    using fin unfolding m0 by simp
  have d: "last (log_widget (snd ?res)) = CHR 0x0A # ''[exit 2]''"
    using fin unfolding m0 by (simp add: str_int_2)
  from sel b c d show ?thesis by blast
qed

text \<open>
  C4: a restart of the selected service whose sequence is empty writes the notice
  \<open>Restart not supported; missing targets\<close> to the log and does nothing else: no
  \<open>run_command\<close> call, no other change of the application.
\<close>

theorem restart_unsupported_is_noop:
  assumes "selected_service st = Inr (Some a)"
    and "restart_sequence (heap st a) = []"
  shows "action_do_restart restart_sequence procs st =
           (None, st\<lparr>log_widget := log_widget st @ [''[note] Restart not supported; missing targets'']\<rparr>) \<and>
         commands_run (effects (snd (action_do_restart restart_sequence procs st))) =
           commands_run (effects st)"
  using assms by (simp add: action_do_restart_def toast_def log_write_def)

text \<open>A service with no restart sequence: one notice, no action.\<close>

theorem restart_unsupported_is_noop_witness:
  "selected_service (app_one svc_web) = Inr (Some 0) \<and>
   log_widget (snd (action_do_restart (\<lambda>svc. []) (\<lambda>k. Exits [] 0) (app_one svc_web))) =
     [''[note] Restart not supported; missing targets''] \<and>
   effects (snd (action_do_restart (\<lambda>svc. []) (\<lambda>k. Exits [] 0) (app_one svc_web))) = []"
proof -
  have sel: "selected_service (app_one svc_web) = Inr (Some 0)"
    by (rule selected_app_one)
  have "action_do_restart (\<lambda>svc. []) (\<lambda>k. Exits [] 0) (app_one svc_web) =
          (None, (app_one svc_web)\<lparr>log_widget := log_widget (app_one svc_web) @
             [''[note] Restart not supported; missing targets'']\<rparr>)"
    using restart_unsupported_is_noop [OF sel, of "\<lambda>svc. []" "\<lambda>k. Exits [] 0"] by simp
  then show ?thesis using sel by (simp add: app_one_def)
qed

section \<open>Periodic refresh: one row\<close>

lemma merged_cases:
  "truthy act \<Longrightarrow> p \<noteq> None \<Longrightarrow> merged svc act p now = svc\<lparr>active := act, pid := p, updated_at := Some now\<rparr>"
  "truthy act \<Longrightarrow> p = None \<Longrightarrow> merged svc act p now = svc\<lparr>active := act, updated_at := Some now\<rparr>"
  "\<not> truthy act \<Longrightarrow> p \<noteq> None \<Longrightarrow> merged svc act p now = svc\<lparr>pid := p, updated_at := Some now\<rparr>"
  "act = active svc \<Longrightarrow> p \<noteq> None \<Longrightarrow> merged svc act p now = svc\<lparr>pid := p, updated_at := Some now\<rparr>"
  "truthy act \<Longrightarrow> p = pid svc \<Longrightarrow> merged svc act p now = svc\<lparr>active := act, updated_at := Some now\<rparr>"
  by (simp_all add: merged_def)

lemma probe_row_merge_char:
  "probe_row_merge row a act p now st =
     (if (truthy act \<and> act \<noteq> active (heap st a)) \<or> (p \<noteq> None \<and> p \<noteq> pid (heap st a)) then
        update_row_by_row row a
          (st\<lparr>heap := (heap st)(a := merged (heap st a) act p now),
               effects := effects st @
                 (if truthy act \<and> act \<noteq> active (heap st a) then [SetActive a act] else []) @
                 (if p \<noteq> None \<and> p \<noteq> pid (heap st a) then [SetPid a p] else []) @
                 [SetUpdatedAt a now]\<rparr>)
      else (None, st))"
proof -
  let ?c1 = "truthy act \<and> act \<noteq> active (heap st a)"
  let ?c2 = "p \<noteq> None \<and> p \<noteq> pid (heap st a)"
  consider (both) "?c1" "?c2" | (state) "?c1" "\<not> ?c2" | (pid) "\<not> ?c1" "?c2" | (none) "\<not> ?c1" "\<not> ?c2"
    by blast
  then show ?thesis
  proof cases
    case both
    then show ?thesis
      by (simp add: probe_row_merge_def set_active_def set_pid_def set_updated_at_def emit_def
          Let_def merged_cases(1))
  next
    case state
    then have "p = None \<or> p = pid (heap st a)" by blast
    then show ?thesis using state(1)
      by (auto simp: probe_row_merge_def set_active_def set_pid_def set_updated_at_def emit_def
          Let_def merged_cases(2,5))
  next
    case pid
    then have "\<not> truthy act \<or> act = active (heap st a)" by blast
    then show ?thesis using pid(2)
      by (auto simp: probe_row_merge_def set_active_def set_pid_def set_updated_at_def emit_def
          Let_def merged_cases(3,4))
  next
    case none
    then show ?thesis
      by (auto simp: probe_row_merge_def Let_def)
  qed
qed

lemma lookup_app_one: "probe_row_lookup 0 (app_one svc) = Inr 0"
  by (simp add: probe_row_lookup_def app_one_def)

text \<open>
  C5, as stated: the record is updated if and only if the probed state or process id
  differs from the recorded one. It fails: the service is recorded as \<open>inactive\<close> with
  process id 1234, the probe returns \<open>inactive\<close> and no process id, so the process id
  differs, and \<open>probe_row\<close> changes nothing.
\<close>

theorem probe_differs_without_update_counterexample:
  "probe_row_lookup 0 (app_one svc_web) = Inr 0 \<and>
   active (heap (app_one svc_web) 0) = Some ''inactive'' \<and>
   pid (heap (app_one svc_web) 0) \<noteq> None \<and>
   probe_row 0 (ProbeReturns (Some ''inactive'') None) 50 (app_one svc_web) = (None, app_one svc_web)"
  by (simp add: probe_row_def probe_row_lookup_def probe_row_merge_def Let_def app_one_def
      svc_web_def truthy_def)

text \<open>
  C5, amended: the record is updated if and only if the probed state is truthy and
  differs from the recorded state, or the probed process id is not \<open>None\<close> and differs
  from the recorded one. When it is updated, each of the two fields that satisfies its
  condition is overwritten with the probed value (a falsy state or an absent process id
  overwrites nothing), \<open>updated_at\<close> is set to the current time, and
  \<open>_update_row_by_row\<close> is called for the row. Otherwise nothing changes.
\<close>

theorem probe_merge_updates_informative_differences:
  "probe_row_merge row a act p now st =
     (if (truthy act \<and> act \<noteq> active (heap st a)) \<or> (p \<noteq> None \<and> p \<noteq> pid (heap st a)) then
        update_row_by_row row a
          (st\<lparr>heap := (heap st)(a := (heap st a)
                  \<lparr>active := (if truthy act then act else active (heap st a)),
                   pid := (if p \<noteq> None then p else pid (heap st a)),
                   updated_at := Some now\<rparr>),
               effects := effects st @
                 (if truthy act \<and> act \<noteq> active (heap st a) then [SetActive a act] else []) @
                 (if p \<noteq> None \<and> p \<noteq> pid (heap st a) then [SetPid a p] else []) @
                 [SetUpdatedAt a now]\<rparr>)
      else (None, st))"
  using probe_row_merge_char [of row a act p now st] unfolding merged_def .

text \<open>
  The service recorded as \<open>active\<close> with process id 7 is probed as \<open>failed\<close>, no
  process id: the state is overwritten, the process id stays, the time is recorded and
  the row is redrawn.
\<close>

theorem probe_merge_updates_informative_differences_witness:
  "heap (snd (probe_row_merge 0 0 (Some ''failed'') None 50 (app_one svc_db))) 0 =
     svc_db\<lparr>active := Some ''failed'', updated_at := Some 50\<rparr> \<and>
   effects (snd (probe_row_merge 0 0 (Some ''failed'') None 50 (app_one svc_db))) =
     [SetActive 0 (Some ''failed''), SetUpdatedAt 0 50,
      UpdateCell 0 0 (Text ''failed''), UpdateCell 0 1 (Text ''db''), UpdateCell 0 2 (Text ''7'')] \<and>
   probe_row_merge 0 0 (Some ''active'') None 50 (app_one svc_db) = (None, app_one svc_db)"
proof -
  have s7: "str_int 7 = ''7''" by code_simp
  have upd: "probe_row_merge 0 0 (Some ''failed'') None 50 (app_one svc_db) =
      update_row_by_row 0 0
        ((app_one svc_db)\<lparr>heap := (heap (app_one svc_db))(0 := svc_db\<lparr>active := Some ''failed'', updated_at := Some 50\<rparr>),
           effects := [SetActive 0 (Some ''failed''), SetUpdatedAt 0 50]\<rparr>)"
    using probe_merge_updates_informative_differences [of 0 0 "Some ''failed''" None 50 "app_one svc_db"]
    by (simp add: app_one_def svc_db_def truthy_def)
  have same: "probe_row_merge 0 0 (Some ''active'') None 50 (app_one svc_db) = (None, app_one svc_db)"
    using probe_merge_updates_informative_differences [of 0 0 "Some ''active''" None 50 "app_one svc_db"]
    by (simp add: app_one_def svc_db_def truthy_def)
  show ?thesis
    unfolding upd same
    by (simp add: update_row_by_row_def update_cell_at_def app_one_def svc_db_def row_cells_def
        or_else_def str_opt_int_def s7 Let_def)
qed

text \<open>
  C6: a probe result whose state and process id equal the recorded ones changes
  nothing: no field is written, \<open>updated_at\<close> included, and no cell of the table is
  updated. This holds for \<open>probe_row\<close> as a whole and for its part after the probe
  has returned.
\<close>

theorem unchanged_probe_is_noop:
  "probe_row_merge row a (active (heap st a)) (pid (heap st a)) now st = (None, st) \<and>
   (probe_row_lookup row st = Inr a \<longrightarrow>
      probe_row row (ProbeReturns (active (heap st a)) (pid (heap st a))) now st = (None, st))"
  by (simp add: probe_row_def probe_row_merge_def Let_def)

text \<open>The service recorded as \<open>active\<close> with process id 7 is probed as just that.\<close>

theorem unchanged_probe_is_noop_witness:
  "probe_row_lookup 0 (app_one svc_db) = Inr 0 \<and>
   probe_row 0 (ProbeReturns (Some ''active'') (Some 7)) 50 (app_one svc_db) = (None, app_one svc_db)"
proof -
  have rec: "active (heap (app_one svc_db) 0) = Some ''active''" "pid (heap (app_one svc_db) 0) = Some 7"
    by (simp_all add: app_one_def svc_db_def)
  from unchanged_probe_is_noop [of 0 0 "app_one svc_db" 50] lookup_app_one [of svc_db]
  show ?thesis unfolding rec by simp
qed

section \<open>What the table and the follow controller leave alone\<close>

lemma update_cell_at_frame:
  "heap (snd (update_cell_at row col v st)) = heap st"
  "tasks (snd (update_cell_at row col v st)) = tasks st"
  "follow_task (snd (update_cell_at row col v st)) = follow_task st"
  "filter is_field_write (effects (snd (update_cell_at row col v st))) = filter is_field_write (effects st)"
  "fst (update_cell_at row col v st) \<noteq> Some CancelledError"
  by (simp_all add: update_cell_at_def)

lemma update_cells_frame:
  "heap (snd (update_cells row cvs st)) = heap st \<and>
   tasks (snd (update_cells row cvs st)) = tasks st \<and>
   follow_task (snd (update_cells row cvs st)) = follow_task st \<and>
   filter is_field_write (effects (snd (update_cells row cvs st))) = filter is_field_write (effects st) \<and>
   fst (update_cells row cvs st) \<noteq> Some CancelledError"
proof (induction cvs arbitrary: st)
  case Nil
  then show ?case by simp
next
  case (Cons cv cvs)
  obtain col v where cv: "cv = (col, v)" by (cases cv)
  obtain e st1 where u: "update_cell_at row col v st = (e, st1)" by (cases "update_cell_at row col v st")
  have fr: "heap st1 = heap st" "tasks st1 = tasks st" "follow_task st1 = follow_task st"
    "filter is_field_write (effects st1) = filter is_field_write (effects st)"
    "e \<noteq> Some CancelledError"
    using update_cell_at_frame [of row col v st] unfolding u by simp_all
  show ?case
  proof (cases e)
    case None
    then show ?thesis using Cons.IH [of st1] fr by (simp add: cv u)
  next
    case (Some err)
    then show ?thesis using fr by (simp add: cv u)
  qed
qed

lemma update_row_frame:
  "heap (snd (update_row_by_row row a st)) = heap st"
  "tasks (snd (update_row_by_row row a st)) = tasks st"
  "follow_task (snd (update_row_by_row row a st)) = follow_task st"
  "filter is_field_write (effects (snd (update_row_by_row row a st))) = filter is_field_write (effects st)"
  "fst (update_row_by_row row a st) \<noteq> Some CancelledError"
  using update_cells_frame unfolding update_row_by_row_def Let_def by blast+

lemma cancel_previous_frame:
  "heap (snd (cancel_previous st)) = heap st"
  "filter is_field_write (effects (snd (cancel_previous st))) = filter is_field_write (effects st)"
  by (simp_all add: cancel_previous_def run_command_cancelled_def set_status_def emit_def
      split: option.splits task_status.splits)

lemma start_follow_frame:
  "heap (snd (start_follow follow_argv a fj st)) = heap st"
  "filter is_field_write (effects (snd (start_follow follow_argv a fj st))) = filter is_field_write (effects st)"
proof -
  obtain e st1 where c: "cancel_previous st = (e, st1)" by (cases "cancel_previous st")
  have fr: "heap st1 = heap st" "filter is_field_write (effects st1) = filter is_field_write (effects st)"
    using cancel_previous_frame [of st] unfolding c by simp_all
  show "heap (snd (start_follow follow_argv a fj st)) = heap st"
    using fr by (cases e) (simp_all add: start_follow_def c Let_def create_task_def emit_def
        log_write_def log_clear_def)
  show "filter is_field_write (effects (snd (start_follow follow_argv a fj st))) = filter is_field_write (effects st)"
    using fr by (cases e) (simp_all add: start_follow_def c Let_def create_task_def emit_def
        log_write_def log_clear_def)
qed

section \<open>On-demand probe\<close>

lemma on_row_highlighted_resume_writes:
  "heap (snd (on_row_highlighted_resume follow_argv row a act p st)) =
     (heap st)(a := (heap st a)
        \<lparr>active := (if truthy act then act else active (heap st a)),
         pid := (if truthy act \<and> p \<noteq> None then p else pid (heap st a))\<rparr>) \<and>
   filter is_field_write (effects (snd (on_row_highlighted_resume follow_argv row a act p st))) =
     filter is_field_write (effects st) @
     (if truthy act then SetActive a act # (if p \<noteq> None then [SetPid a p] else []) else [])"
proof -
  define st1 where "st1 = (if truthy act then
                   (let s = set_active a act st in if p \<noteq> None then set_pid a p s else s)
                 else st)"
  have h1: "heap st1 = (heap st)(a := (heap st a)
        \<lparr>active := (if truthy act then act else active (heap st a)),
         pid := (if truthy act \<and> p \<noteq> None then p else pid (heap st a))\<rparr>)"
    by (auto simp: st1_def set_active_def set_pid_def emit_def Let_def)
  have e1: "filter is_field_write (effects st1) = filter is_field_write (effects st) @
     (if truthy act then SetActive a act # (if p \<noteq> None then [SetPid a p] else []) else [])"
    by (simp add: st1_def set_active_def set_pid_def emit_def Let_def)
  obtain e st2 where u: "update_row_by_row row a st1 = (e, st2)" by (cases "update_row_by_row row a st1")
  have fr2: "heap st2 = heap st1" "filter is_field_write (effects st2) = filter is_field_write (effects st1)"
    using update_row_frame(1,4) [of row a st1] unfolding u by simp_all
  have res: "on_row_highlighted_resume follow_argv row a act p st =
      (case e of Some err \<Rightarrow> (Some err, st2) | None \<Rightarrow> start_follow follow_argv a False st2)"
    unfolding on_row_highlighted_resume_def st1_def [symmetric]
    by (simp add: u Let_def split: option.splits)
  show ?thesis
  proof (cases e)
    case None
    then show ?thesis unfolding res using start_follow_frame [of follow_argv a False st2] fr2 h1 e1
      by simp
  next
    case (Some err)
    then show ?thesis unfolding res using fr2 h1 e1 by simp
  qed
qed

text \<open>
  C10, as stated: the on-demand probe overwrites the process id whenever the probe
  returns a process id that is not absent. It fails: the write of the process id is
  nested under the test of the state, so a probe result with an empty state and process
  id 42 writes nothing and the recorded process id 1234 stays.
\<close>

theorem on_demand_pid_needs_state_counterexample:
  "pid (heap (snd (on_row_highlighted (\<lambda>svc. [''journalctl'', ''-f'']) (Some 0)
        (ProbeReturns (Some []) (Some 42)) (app_one svc_web))) 0) = Some 1234 \<and>
   filter is_field_write (effects (snd (on_row_highlighted (\<lambda>svc. [''journalctl'', ''-f'']) (Some 0)
        (ProbeReturns (Some []) (Some 42)) (app_one svc_web)))) = []"
proof -
  have "on_row_highlighted (\<lambda>svc. [''journalctl'', ''-f'']) (Some 0)
          (ProbeReturns (Some []) (Some 42)) (app_one svc_web) =
        on_row_highlighted_resume (\<lambda>svc. [''journalctl'', ''-f'']) 0 0 (Some []) (Some 42)
          ((app_one svc_web)\<lparr>selected_index := 0\<rparr>)"
    by (simp add: on_row_highlighted_def app_one_def Let_def)
  then show ?thesis
    using on_row_highlighted_resume_writes
      [of "\<lambda>svc. [''journalctl'', ''-f'']" 0 0 "Some []" "Some 42" "(app_one svc_web)\<lparr>selected_index := 0\<rparr>"]
    by (simp add: truthy_def app_one_def svc_web_def)
qed

text \<open>
  C10, amended: when the highlighted row is valid and the probe returns, the handler
  writes the recorded state whenever the probed state is truthy, and the recorded
  process id whenever the probed state is truthy and the probed process id is not
  \<open>None\<close>; it does so whether or not the values differ from the recorded ones, and it
  makes no other attribute write, so \<open>updated_at\<close> is never touched.
\<close>

theorem on_demand_probe_writes_ungated:
  assumes "0 \<le> row" and "row < int (length (rows st))"
    and "rows st ! nat row < length (services st)"
    and "a = services st ! (rows st ! nat row)"
    and "st' = snd (on_row_highlighted follow_argv (Some row) (ProbeReturns act p) st)"
  shows "filter is_field_write (effects st') =
           filter is_field_write (effects st) @
           (if truthy act then SetActive a act # (if p \<noteq> None then [SetPid a p] else []) else []) \<and>
         heap st' = (heap st)(a := (heap st a)
            \<lparr>active := (if truthy act then act else active (heap st a)),
             pid := (if truthy act \<and> p \<noteq> None then p else pid (heap st a))\<rparr>) \<and>
         (\<forall>b. updated_at (heap st' b) = updated_at (heap st b))"
proof -
  let ?st1 = "st\<lparr>selected_index := rows st ! nat row\<rparr>"
  have run: "on_row_highlighted follow_argv (Some row) (ProbeReturns act p) st =
      on_row_highlighted_resume follow_argv (nat row) a act p ?st1"
    using assms(1-4) by (simp add: on_row_highlighted_def Let_def)
  have w: "heap st' = (heap st)(a := (heap st a)
            \<lparr>active := (if truthy act then act else active (heap st a)),
             pid := (if truthy act \<and> p \<noteq> None then p else pid (heap st a))\<rparr>)"
    and e: "filter is_field_write (effects st') =
           filter is_field_write (effects st) @
           (if truthy act then SetActive a act # (if p \<noteq> None then [SetPid a p] else []) else [])"
    using on_row_highlighted_resume_writes [of follow_argv "nat row" a act p ?st1]
    unfolding assms(5) run by simp_all
  have "updated_at (heap st' b) = updated_at (heap st b)" for b
    unfolding w by simp
  with w e show ?thesis by blast
qed

text \<open>
  The service recorded as \<open>active\<close> with process id 7 is probed as \<open>active\<close> with
  process id 7: both values are written again, and nothing else.
\<close>

theorem on_demand_probe_writes_ungated_witness:
  "(0::int) \<le> 0 \<and> (0::int) < int (length (rows (app_one svc_db))) \<and>
   rows (app_one svc_db) ! nat 0 < length (services (app_one svc_db)) \<and>
   filter is_field_write (effects (snd (on_row_highlighted (\<lambda>svc. [''journalctl'', ''-f'']) (Some 0)
        (ProbeReturns (Some ''active'') (Some 7)) (app_one svc_db)))) =
     [SetActive 0 (Some ''active''), SetPid 0 (Some 7)] \<and>
   updated_at (heap (snd (on_row_highlighted (\<lambda>svc. [''journalctl'', ''-f'']) (Some 0)
        (ProbeReturns (Some ''active'') (Some 7)) (app_one svc_db))) 0) = None"
proof -
  have h: "(0::int) \<le> 0" "(0::int) < int (length (rows (app_one svc_db)))"
    "rows (app_one svc_db) ! nat 0 < length (services (app_one svc_db))"
    "0 = services (app_one svc_db) ! (rows (app_one svc_db) ! nat 0)"
    by (simp_all add: app_one_def)
  note th = on_demand_probe_writes_ungated [OF h refl, of "\<lambda>svc. [''journalctl'', ''-f'']" "Some ''active''" "Some 7"]
  from th have "filter is_field_write (effects (snd (on_row_highlighted (\<lambda>svc. [''journalctl'', ''-f'']) (Some 0)
        (ProbeReturns (Some ''active'') (Some 7)) (app_one svc_db)))) =
     [SetActive 0 (Some ''active''), SetPid 0 (Some 7)]"
    by (simp add: truthy_def app_one_def)
  moreover from th have "updated_at (heap (snd (on_row_highlighted (\<lambda>svc. [''journalctl'', ''-f'']) (Some 0)
        (ProbeReturns (Some ''active'') (Some 7)) (app_one svc_db))) 0) = updated_at (heap (app_one svc_db) 0)"
    by blast
  ultimately show ?thesis using h(1-3) by (simp add: app_one_def svc_db_def)
qed

section \<open>Follow sessions\<close>

lemma set_status_simps:
  "length (tasks (set_status t s st)) = length (tasks st)"
  "follow_task (set_status t s st) = follow_task st"
  "effects (set_status t s st) = effects st"
  "i < length (tasks st) \<Longrightarrow>
     fr_status (tasks (set_status t s st) ! i) = (if i = t then s else fr_status (tasks st ! i))"
  by (simp_all add: set_status_def nth_list_update)

lemma emit_simps:
  "tasks (emit evs st) = tasks st"
  "follow_task (emit evs st) = follow_task st"
  "effects (emit evs st) = effects st @ evs"
  by (simp_all add: emit_def)

lemma log_write_simps:
  "tasks (log_write s st) = tasks st"
  "follow_task (log_write s st) = follow_task st"
  "effects (log_write s st) = effects st"
  by (simp_all add: log_write_def)

lemma no_live_all_done:
  assumes "single_flight st" and "follow_task st = None \<or> (\<exists>t. follow_task st = Some t \<and> \<not> live (tasks st ! t))"
  shows "all_done st"
  using assms unfolding single_flight_def all_done_def by auto

lemma all_done_single_flight:
  assumes "all_done st" and "case follow_task st of None \<Rightarrow> True | Some t \<Rightarrow> t < length (tasks st)"
  shows "single_flight st"
  using assms unfolding single_flight_def all_done_def by auto

text \<open>What lines 273 to 276 do, case by case.\<close>

lemma cancel_previous_idle:
  assumes "follow_task st = None \<or> (\<exists>t. follow_task st = Some t \<and> \<not> live (tasks st ! t))"
  shows "cancel_previous st = (None, st)"
  using assms by (auto simp: cancel_previous_def live_def split: task_status.splits)

lemma cancel_previous_live:
  assumes "follow_task st = Some t" and "live (tasks st ! t)"
  shows "cancel_previous st =
           ((if fr_status (tasks st ! t) = Running then None else Some CancelledError),
            set_status t Finished
              (emit ([TaskCancel t] @ (if fr_status (tasks st ! t) = Running then [ProcSignalled t] else []) @
                     [TaskDone t]) st))"
  using assms
  by (auto simp: cancel_previous_def run_command_cancelled_def live_def split: task_status.splits)

lemma set_finished_all_done:
  assumes "single_flight st" and "follow_task st = Some t"
  shows "all_done (set_status t Finished (emit evs st))"
  unfolding all_done_def
proof (intro allI impI)
  fix i
  assume i: "i < length (tasks (set_status t Finished (emit evs st)))"
  then have i': "i < length (tasks st)"
    by (simp add: set_status_simps emit_simps)
  then have st: "fr_status (tasks (set_status t Finished (emit evs st)) ! i) =
      (if i = t then Finished else fr_status (tasks st ! i))"
    using set_status_simps(4) [of i "emit evs st" t Finished] by (simp add: emit_simps)
  show "\<not> live (tasks (set_status t Finished (emit evs st)) ! i)"
  proof (cases "i = t")
    case True
    then show ?thesis using st by (simp add: live_def)
  next
    case False
    then have "\<not> live (tasks st ! i)"
      using assms i' unfolding single_flight_def by auto
    then show ?thesis using st False by (simp add: live_def)
  qed
qed

lemma cancel_previous_all_done:
  assumes "single_flight st"
  shows "all_done (snd (cancel_previous st)) \<and>
         follow_task (snd (cancel_previous st)) = follow_task st \<and>
         length (tasks (snd (cancel_previous st))) = length (tasks st)"
proof (cases "follow_task st = None \<or> (\<exists>t. follow_task st = Some t \<and> \<not> live (tasks st ! t))")
  case True
  then show ?thesis
    using no_live_all_done [OF assms True] by (simp add: cancel_previous_idle)
next
  case False
  then obtain t where t: "follow_task st = Some t" "live (tasks st ! t)" by auto
  show ?thesis
    unfolding cancel_previous_live [OF t]
    using set_finished_all_done [OF assms t(1)]
    by (simp add: set_status_simps emit_simps t(1))
qed

lemma create_task_single_flight:
  assumes "all_done st"
  shows "single_flight (create_task r st)"
proof -
  have "follow_task (create_task r st) = Some i"
    if "i < length (tasks (create_task r st))" "live (tasks (create_task r st) ! i)" for i
  proof (cases "i < length (tasks st)")
    case True
    then have "tasks (create_task r st) ! i = tasks st ! i"
      by (simp add: create_task_def emit_def nth_append)
    then show ?thesis using that(2) assms True unfolding all_done_def by simp
  next
    case False
    then have "i = length (tasks st)" using that(1) by (simp add: create_task_def emit_def)
    then show ?thesis by (simp add: create_task_def emit_def)
  qed
  then show ?thesis
    unfolding single_flight_def by (auto simp: create_task_def emit_def)
qed

lemma all_done_log:
  "all_done (log_write s (log_clear st)) = all_done st"
  by (simp add: all_done_def log_write_def log_clear_def)

lemma start_follow_single_flight:
  assumes "single_flight st"
  shows "single_flight (snd (start_follow follow_argv a fj st))"
proof -
  obtain e st1 where c: "cancel_previous st = (e, st1)" by (cases "cancel_previous st")
  have d: "all_done st1" and f: "follow_task st1 = follow_task st"
    and l: "length (tasks st1) = length (tasks st)"
    using cancel_previous_all_done [OF assms] unfolding c by simp_all
  show ?thesis
  proof (cases e)
    case None
    then show ?thesis
      using create_task_single_flight [of "log_write s (log_clear st1)" for s] d
      by (simp add: start_follow_def c Let_def all_done_log)
  next
    case (Some err)
    have "case follow_task st1 of None \<Rightarrow> True | Some t \<Rightarrow> t < length (tasks st1)"
      using assms unfolding single_flight_def f l by simp
    then have "single_flight st1"
      by (rule all_done_single_flight [OF d])
    then show ?thesis using Some by (simp add: start_follow_def c)
  qed
qed

lemma runner_start_single_flight:
  assumes "single_flight st" and "t < length (tasks st)" and "fr_status (tasks st ! t) = Pending"
  shows "single_flight (runner_start t spawn_error st)"
proof -
  have ft: "follow_task st = Some t"
    using assms unfolding single_flight_def live_def by auto
  have ot: "\<not> live (tasks st ! i)" if "i < length (tasks st)" "i \<noteq> t" for i
    using assms(1) ft that unfolding single_flight_def by auto
  let ?st' = "runner_start t spawn_error st"
  have len: "length (tasks ?st') = length (tasks st)" and f': "follow_task ?st' = Some t"
    by (simp_all add: runner_start_def runner_raise_def Let_def set_status_simps emit_simps
        log_write_simps ft split: option.splits)
  have oth: "tasks ?st' ! i = tasks st ! i" if "i < length (tasks st)" "i \<noteq> t" for i
    using that by (simp add: runner_start_def runner_raise_def Let_def set_status_def emit_def
        log_write_def split: option.splits)
  have "i = t" if "i < length (tasks st)" "live (tasks ?st' ! i)" for i
  proof (rule ccontr)
    assume "i \<noteq> t"
    then have "tasks ?st' ! i = tasks st ! i" and "\<not> live (tasks st ! i)"
      using oth ot that(1) by simp_all
    with that(2) show False by simp
  qed
  then show ?thesis
    unfolding single_flight_def len f'
    using assms(2) by auto
qed

lemma runner_exit_single_flight:
  assumes "single_flight st" and "t < length (tasks st)" and "fr_status (tasks st ! t) = Running"
  shows "single_flight (runner_exit t rc st)"
proof -
  have ft: "follow_task st = Some t"
    using assms unfolding single_flight_def live_def by auto
  have "all_done (set_status t Finished (emit [TaskDone t] (log_write (exit_annotation rc) st)))"
    using set_finished_all_done [of "log_write (exit_annotation rc) st" t "[TaskDone t]"] assms(1) ft
    by (simp add: single_flight_def log_write_simps)
  then show ?thesis
    unfolding runner_exit_def
    by (rule all_done_single_flight) (simp add: set_status_simps emit_simps log_write_simps ft assms(2))
qed

lemma runner_raise_single_flight:
  assumes "single_flight st" and "t < length (tasks st)" and "fr_status (tasks st ! t) = Running"
  shows "single_flight (runner_raise t msg st)"
proof -
  have ft: "follow_task st = Some t"
    using assms unfolding single_flight_def live_def by auto
  have "all_done (set_status t Finished (emit [TaskDone t] (log_write (error_annotation msg) st)))"
    using set_finished_all_done [of "log_write (error_annotation msg) st" t "[TaskDone t]"] assms(1) ft
    by (simp add: single_flight_def log_write_simps)
  then show ?thesis
    unfolding runner_raise_def
    by (rule all_done_single_flight) (simp add: set_status_simps emit_simps log_write_simps ft assms(2))
qed

lemma reachable_single_flight: "reachable st \<Longrightarrow> single_flight st"
proof (induction rule: reachable.induct)
  case (initial st)
  then show ?case by (simp add: single_flight_def)
next
  case (started st follow_argv a force_journal)
  then show ?case by (simp add: start_follow_single_flight)
next
  case (task_start st t spawn_error)
  then show ?case by (simp add: runner_start_single_flight)
next
  case (task_line st t l)
  then show ?case
    by (simp add: single_flight_def runner_line_def log_write_def split: option.splits)
next
  case (task_exit st t rc)
  then show ?case by (simp add: runner_exit_single_flight)
next
  case (task_raise st t msg)
  then show ?case by (simp add: runner_raise_single_flight)
next
  case (elsewhere st st')
  then show ?case by (simp add: single_flight_def split: option.splits)
qed

lemma single_flight_at_most_one:
  assumes "single_flight st"
  shows "\<forall>i j. i < length (tasks st) \<and> j < length (tasks st) \<and>
           live (tasks st ! i) \<and> live (tasks st ! j) \<longrightarrow> i = j"
  using assms unfolding single_flight_def by (metis option.inject)

lemma start_follow_live:
  assumes "follow_task st = Some t" and "live (tasks st ! t)" and "t < length (tasks st)"
  shows "fst (start_follow follow_argv a fj st) =
           (if fr_status (tasks st ! t) = Running then None else Some CancelledError) \<and>
         effects (snd (start_follow follow_argv a fj st)) =
           effects st @ [TaskCancel t] @
           (if fr_status (tasks st ! t) = Running then [ProcSignalled t] else []) @ [TaskDone t] @
           (if fr_status (tasks st ! t) = Running then [TaskCreated (length (tasks st))] else []) \<and>
         fr_status (tasks (snd (start_follow follow_argv a fj st)) ! t) = Finished \<and>
         (fr_status (tasks st ! t) = Running \<longrightarrow>
            follow_task (snd (start_follow follow_argv a fj st)) = Some (length (tasks st)) \<and>
            fr_status (tasks (snd (start_follow follow_argv a fj st)) ! length (tasks st)) = Pending)"
proof (cases "fr_status (tasks st ! t) = Running")
  case True
  then show ?thesis
    using assms(3)
    by (simp add: start_follow_def cancel_previous_live [OF assms(1,2)] Let_def create_task_def
        emit_def set_status_def log_write_def log_clear_def nth_append)
next
  case False
  then show ?thesis
    using assms(3)
    by (simp add: start_follow_def cancel_previous_live [OF assms(1,2)] emit_def set_status_def)
qed

text \<open>
  C1: \<open>_start_follow\<close> is called in a reachable state in which the previous follow task
  \<open>t\<close> is not done. The actions of the call are, in this order: the cancellation of
  \<open>t\<close>; the signalling of its process, when it had one; the end of \<open>t\<close>; and only
  then, if the call returns normally, the creation of the new task. The call runs no
  command itself: the new task is left waiting for its first step, which is where its
  command is spawned. Before the call and after it at most one follow task is not done.
\<close>

theorem start_follow_cancels_before_spawn:
  assumes "reachable st" and "follow_task st = Some t" and "live (tasks st ! t)"
    and "res = start_follow follow_argv a force_journal st"
  shows "effects (snd res) =
           effects st @ [TaskCancel t] @
           (if fr_status (tasks st ! t) = Running then [ProcSignalled t] else []) @ [TaskDone t] @
           (if fst res = None then [TaskCreated (length (tasks st))] else []) \<and>
         commands_run (effects (snd res)) = commands_run (effects st) \<and>
         \<not> live (tasks (snd res) ! t) \<and>
         (fst res = None \<longrightarrow>
            follow_task (snd res) = Some (length (tasks st)) \<and>
            fr_status (tasks (snd res) ! length (tasks st)) = Pending) \<and>
         (\<forall>i j. i < length (tasks st) \<and> j < length (tasks st) \<and>
                live (tasks st ! i) \<and> live (tasks st ! j) \<longrightarrow> i = j) \<and>
         (\<forall>i j. i < length (tasks (snd res)) \<and> j < length (tasks (snd res)) \<and>
                live (tasks (snd res) ! i) \<and> live (tasks (snd res) ! j) \<longrightarrow> i = j)"
proof -
  have sf: "single_flight st" by (rule reachable_single_flight [OF assms(1)])
  then have tl: "t < length (tasks st)"
    using assms(2) unfolding single_flight_def by simp
  note sl = start_follow_live [OF assms(2,3) tl, of follow_argv a force_journal, folded assms(4)]
  have r: "(fst res = None) = (fr_status (tasks st ! t) = Running)"
    using sl by simp
  have e: "effects (snd res) =
           effects st @ [TaskCancel t] @
           (if fr_status (tasks st ! t) = Running then [ProcSignalled t] else []) @ [TaskDone t] @
           (if fst res = None then [TaskCreated (length (tasks st))] else [])"
    using sl unfolding r by simp
  have c: "commands_run (effects (snd res)) = commands_run (effects st)"
    unfolding e by (simp add: commands_run_append)
  have d: "\<not> live (tasks (snd res) ! t)"
    using sl by (simp add: live_def)
  have n: "fst res = None \<longrightarrow>
            follow_task (snd res) = Some (length (tasks st)) \<and>
            fr_status (tasks (snd res) ! length (tasks st)) = Pending"
    using sl unfolding r by simp
  have "reachable (snd res)"
    unfolding assms(4) by (rule reachable.started [OF assms(1)])
  then have "single_flight (snd res)" by (rule reachable_single_flight)
  then have o2: "\<forall>i j. i < length (tasks (snd res)) \<and> j < length (tasks (snd res)) \<and>
                live (tasks (snd res) ! i) \<and> live (tasks (snd res) ! j) \<longrightarrow> i = j"
    by (rule single_flight_at_most_one)
  have o1: "\<forall>i j. i < length (tasks st) \<and> j < length (tasks st) \<and>
                live (tasks st ! i) \<and> live (tasks st ! j) \<longrightarrow> i = j"
    using sf by (rule single_flight_at_most_one)
  from e c d n o1 o2 show ?thesis by blast
qed

lemma app_following_state:
  "tasks app_following = [\<lparr>fr_argv = [''journalctl'', ''-f''], fr_cwd = ''/srv/web'', fr_status = Running\<rparr>]"
  "follow_task app_following = Some 0"
  "effects app_following = [TaskCreated 0, RunCommand [''journalctl'', ''-f''] ''/srv/web'']"
  by (simp_all add: app_following_def start_follow_def cancel_previous_def app_one_def svc_web_def
      create_task_def runner_start_def set_status_def emit_def log_write_def log_clear_def Let_def)

lemma app_following_reachable: "reachable app_following"
proof -
  let ?st1 = "snd (start_follow (\<lambda>svc. [''journalctl'', ''-f'']) 0 False (app_one svc_web))"
  have "reachable (app_one svc_web)"
    by (rule reachable.initial) (simp_all add: app_one_def)
  then have r1: "reachable ?st1" by (rule reachable.started)
  have "0 < length (tasks ?st1)" "fr_status (tasks ?st1 ! 0) = Pending"
    by (simp_all add: start_follow_def cancel_previous_def app_one_def create_task_def emit_def
        log_write_def log_clear_def Let_def)
  with r1 have "reachable (runner_start 0 None ?st1)" by (rule reachable.task_start)
  then show ?thesis by (simp add: app_following_def)
qed

text \<open>
  A stream is being followed and its process runs; a second service is selected. The
  old task is cancelled, its process signalled and the task ended before the new task
  is created, and the only command run so far is the old one.
\<close>

theorem start_follow_cancels_before_spawn_witness:
  "reachable app_following \<and> follow_task app_following = Some 0 \<and> live (tasks app_following ! 0) \<and>
   effects (snd (start_follow (\<lambda>svc. [''tail'', ''-f'']) 0 False app_following)) =
     [TaskCreated 0, RunCommand [''journalctl'', ''-f''] ''/srv/web'',
      TaskCancel 0, ProcSignalled 0, TaskDone 0, TaskCreated 1] \<and>
   \<not> live (tasks (snd (start_follow (\<lambda>svc. [''tail'', ''-f'']) 0 False app_following)) ! 0)"
proof -
  have l: "live (tasks app_following ! 0)"
    by (simp add: app_following_state live_def)
  note th = start_follow_cancels_before_spawn
    [OF app_following_reachable app_following_state(2) l refl, of "\<lambda>svc. [''tail'', ''-f'']" 0 False]
  have ok: "fst (start_follow (\<lambda>svc. [''tail'', ''-f'']) 0 False app_following) = None"
    using start_follow_live [OF app_following_state(2) l, of "\<lambda>svc. [''tail'', ''-f'']" 0 False]
    by (simp add: app_following_state)
  from th have "effects (snd (start_follow (\<lambda>svc. [''tail'', ''-f'']) 0 False app_following)) =
     [TaskCreated 0, RunCommand [''journalctl'', ''-f''] ''/srv/web'',
      TaskCancel 0, ProcSignalled 0, TaskDone 0, TaskCreated 1]"
    unfolding ok by (simp add: app_following_state)
  moreover from th have "\<not> live (tasks (snd (start_follow (\<lambda>svc. [''tail'', ''-f'']) 0 False app_following)) ! 0)"
    by blast
  ultimately show ?thesis
    using app_following_reachable app_following_state(2) l by blast
qed

section \<open>Periodic refresh: the tick and the loop\<close>

lemma probe_row_raises:
  "snd (probe_row r ProbeRaises t st) = st \<and> fst (probe_row r ProbeRaises t st) \<noteq> None"
  by (simp add: probe_row_def split: sum.splits)

lemma probe_row_no_information:
  "snd (probe_row r (ProbeReturns None None) t st) = st"
  by (simp add: probe_row_def probe_row_merge_def truthy_def Let_def split: sum.splits)

lemma probe_row_lookup_fails:
  "probe_row_lookup r st = Inl e \<Longrightarrow> probe_row r outcome t st = (Some e, st)"
  by (simp add: probe_row_def)

lemma probe_row_not_cancelled: "fst (probe_row r outcome t st) \<noteq> Some CancelledError"
proof (cases "probe_row_lookup r st")
  case (Inl e)
  then have "e = IndexError"
    by (simp add: probe_row_lookup_def Let_def split: if_splits)
  then show ?thesis using Inl by (simp add: probe_row_def)
next
  case (Inr a)
  show ?thesis
  proof (cases outcome)
    case ProbeRaises
    then show ?thesis using Inr by (simp add: probe_row_def)
  next
    case (ProbeReturns act p)
    then show ?thesis
      using Inr update_row_frame(5)
      by (simp add: probe_row_def probe_row_merge_def Let_def)
  qed
qed

lemma gather_rows_not_cancelled: "fst (gather_rows probe now rs st) \<noteq> Some CancelledError"
proof (induction rs arbitrary: st)
  case Nil
  then show ?case by simp
next
  case (Cons r rs)
  obtain e st1 where p: "probe_row r (probe r) (now r) st = (e, st1)"
    by (cases "probe_row r (probe r) (now r) st")
  obtain e' st2 where g: "gather_rows probe now rs st1 = (e', st2)"
    by (cases "gather_rows probe now rs st1")
  have "e \<noteq> Some CancelledError"
    using probe_row_not_cancelled [of r "probe r" "now r" st] unfolding p by simp
  moreover have "e' \<noteq> Some CancelledError"
    using Cons.IH [of st1] unfolding g by simp
  ultimately show ?case by (simp add: p g)
qed

lemma gather_rows_snd_Cons:
  "snd (gather_rows probe now (r # rs) st) =
   snd (gather_rows probe now rs (snd (probe_row r (probe r) (now r) st)))"
  by (simp split: prod.splits)

lemma gather_rows_skips_raising:
  "snd (gather_rows probe now rs st) =
   snd (gather_rows probe now (filter (\<lambda>r. probe r \<noteq> ProbeRaises) rs) st)"
proof (induction rs arbitrary: st)
  case Nil
  then show ?case by simp
next
  case (Cons r rs)
  show ?case
  proof (cases "probe r = ProbeRaises")
    case True
    have "snd (probe_row r (probe r) (now r) st) = st"
      unfolding True using probe_row_raises by blast
    then have "snd (gather_rows probe now (r # rs) st) = snd (gather_rows probe now rs st)"
      unfolding gather_rows_snd_Cons by simp
    also have "\<dots> = snd (gather_rows probe now (filter (\<lambda>r. probe r \<noteq> ProbeRaises) rs) st)"
      by (rule Cons.IH)
    finally show ?thesis using True by simp
  next
    case False
    have "snd (gather_rows probe now (r # rs) st) =
          snd (gather_rows probe now (filter (\<lambda>r. probe r \<noteq> ProbeRaises) rs)
                 (snd (probe_row r (probe r) (now r) st)))"
      unfolding gather_rows_snd_Cons by (rule Cons.IH)
    also have "\<dots> = snd (gather_rows probe now (r # filter (\<lambda>r. probe r \<noteq> ProbeRaises) rs) st)"
      unfolding gather_rows_snd_Cons ..
    finally show ?thesis using False by simp
  qed
qed

lemma loop_stops_iff_cancelled:
  "(\<exists>s. periodic_status_refresh ins st = Stopped s) \<longleftrightarrow> Cancelled \<in> set ins"
proof (induction ins arbitrary: st)
  case Nil
  then show ?case by simp
next
  case (Cons i ins)
  show ?case
  proof (cases i)
    case Cancelled
    then show ?thesis by simp
  next
    case (Tick probe now)
    obtain e st1 where g: "gather_rows probe now [0..<length (rows st)] st = (e, st1)"
      by (cases "gather_rows probe now [0..<length (rows st)] st")
    have nc: "e \<noteq> Some CancelledError"
      using gather_rows_not_cancelled [of probe now "[0..<length (rows st)]" st] unfolding g by simp
    have "periodic_status_refresh (i # ins) st = periodic_status_refresh ins st1"
      using nc by (cases e) (simp_all add: Tick g)
    then show ?thesis using Cons.IH [of st1] Tick by simp
  qed
qed

text \<open>
  C2, as stated: a row whose probe fails is treated as the result (unknown, absent). It
  fails: the service is recorded as \<open>active\<close>; when its probe raises, the record stays
  \<open>active\<close>, whereas the result \<open>unknown\<close> with no process id would have overwritten the
  state with \<open>unknown\<close>.
\<close>

theorem failing_probe_is_not_unknown_counterexample:
  "active (heap (snd (probe_row 0 ProbeRaises 50 (app_one svc_db))) 0) = Some ''active'' \<and>
   active (heap (snd (probe_row 0 (ProbeReturns (Some ''unknown'') None) 50 (app_one svc_db))) 0) =
     Some ''unknown''"
proof -
  have a: "snd (probe_row 0 ProbeRaises 50 (app_one svc_db)) = app_one svc_db"
    using probe_row_raises by blast
  have "heap (snd (probe_row_merge 0 0 (Some ''unknown'') None 50 (app_one svc_db))) =
          heap (snd (update_row_by_row 0 0
            ((app_one svc_db)\<lparr>heap := (heap (app_one svc_db))(0 := merged (heap (app_one svc_db) 0) (Some ''unknown'') None 50),
               effects := effects (app_one svc_db) @ [SetActive 0 (Some ''unknown''), SetUpdatedAt 0 50]\<rparr>)))"
    by (simp add: probe_row_merge_char truthy_def app_one_def svc_db_def)
  then have b: "active (heap (snd (probe_row_merge 0 0 (Some ''unknown'') None 50 (app_one svc_db))) 0) = Some ''unknown''"
    by (simp add: update_row_frame(1) merged_def truthy_def)
  show ?thesis
    unfolding a using b by (simp add: probe_row_def lookup_app_one) (simp add: app_one_def svc_db_def)
qed

text \<open>
  C2, amended: in a periodic refresh tick a row whose probe raises is left as it is,
  exactly as if the probe had returned no state and no process id (it is not
  overwritten with \<open>unknown\<close>); the other rows of the tick are processed as if the
  failing rows were not there; and the loop stops if and only if it is cancelled,
  whatever the probes of the ticks before did.
\<close>

theorem refresh_isolates_failing_probe:
  "snd (probe_row r ProbeRaises t st) = st \<and>
   fst (probe_row r ProbeRaises t st) \<noteq> None \<and>
   snd (probe_row r (ProbeReturns None None) t st) = st \<and>
   snd (gather_rows probe now rs st) =
     snd (gather_rows probe now (filter (\<lambda>r. probe r \<noteq> ProbeRaises) rs) st) \<and>
   ((\<exists>s. periodic_status_refresh ins st = Stopped s) \<longleftrightarrow> Cancelled \<in> set ins)"
  using probe_row_raises [of r t st] probe_row_no_information [of r t st]
    gather_rows_skips_raising [of probe now rs st] loop_stops_iff_cancelled [of ins st]
  by blast

text \<open>
  Two of five rows are probed: the probe of row 0 raises, the probe of row 1 reports
  \<open>failed\<close>. Row 0 keeps its state, row 1 is updated, and the loop goes on until it is
  cancelled.
\<close>

theorem refresh_isolates_failing_probe_witness:
  "active (heap (snd (gather_rows (\<lambda>r. if r = 0 then ProbeRaises else ProbeReturns (Some ''failed'') None)
       (\<lambda>r. 50) [0, 1] app_five)) 0) = Some ''active'' \<and>
   active (heap (snd (gather_rows (\<lambda>r. if r = 0 then ProbeRaises else ProbeReturns (Some ''failed'') None)
       (\<lambda>r. 50) [0, 1] app_five)) 1) = Some ''failed'' \<and>
   (\<exists>s. periodic_status_refresh [Tick (\<lambda>r. ProbeRaises) (\<lambda>r. 50), Cancelled] app_five = Stopped s) \<and>
   \<not> (\<exists>s. periodic_status_refresh [Tick (\<lambda>r. ProbeRaises) (\<lambda>r. 50)] app_five = Stopped s)"
proof -
  let ?P = "\<lambda>r :: nat. if r = 0 then ProbeRaises else ProbeReturns (Some ''failed'') None"
  let ?N = "\<lambda>r :: nat. 50 :: int"
  have g: "snd (gather_rows ?P ?N [0, 1] app_five) = snd (gather_rows ?P ?N [1] app_five)"
    using refresh_isolates_failing_probe [where probe = ?P and now = ?N and rs = "[0, 1]" and st = app_five] by simp
  have l: "probe_row_lookup 1 app_five = Inr 1"
    by (simp add: probe_row_lookup_def app_five_def)
  have "heap (snd (probe_row_merge 1 1 (Some ''failed'') None 50 app_five)) =
          (heap app_five)(1 := merged (heap app_five 1) (Some ''failed'') None 50)"
    by (simp add: probe_row_merge_char update_row_frame(1) truthy_def app_five_def svc_db_def)
  then have h: "heap (snd (gather_rows ?P ?N [1] app_five)) =
          (heap app_five)(1 := merged (heap app_five 1) (Some ''failed'') None 50)"
    using l by (simp add: probe_row_def split: prod.splits)
  have a0: "active (heap (snd (gather_rows ?P ?N [0, 1] app_five)) 0) = Some ''active''"
    unfolding g h by (simp add: app_five_def svc_db_def)
  have a1: "active (heap (snd (gather_rows ?P ?N [0, 1] app_five)) 1) = Some ''failed''"
    unfolding g h by (simp add: merged_def truthy_def)
  have s1: "\<exists>s. periodic_status_refresh [Tick (\<lambda>r. ProbeRaises) (\<lambda>r. 50), Cancelled] app_five = Stopped s"
    using refresh_isolates_failing_probe
      [where st = app_five and ins = "[Tick (\<lambda>r. ProbeRaises) (\<lambda>r. 50), Cancelled]"]
    by simp
  have s2: "\<not> (\<exists>s. periodic_status_refresh [Tick (\<lambda>r. ProbeRaises) (\<lambda>r. 50)] app_five = Stopped s)"
    using refresh_isolates_failing_probe
      [where st = app_five and ins = "[Tick (\<lambda>r. ProbeRaises) (\<lambda>r. 50)]"]
    by simp
  from a0 a1 s1 s2 show ?thesis by blast
qed

section \<open>Indices after a rebuild\<close>

lemma probe_row_stale_row:
  "length (rows st) \<le> row \<Longrightarrow> probe_row row outcome now st = (Some IndexError, st)"
  by (simp add: probe_row_def probe_row_lookup_def)

lemma rows_after_tab_failed: "rows (on_tabs_changed (Some ''tab-failed'') app_five) = []"
  by code_simp

lemma table_after_tab_failed: "table_rows (on_tabs_changed (Some ''tab-failed'') app_five) = []"
  by code_simp

lemma rows_after_refresh: "rows (action_do_refresh [svc_web] app_five) = [0]"
  by code_simp

text \<open>
  C9 at the failing input. Five rows are visible when a tick takes its snapshot
  \<open>range(len(self._rows))\<close>. Before \<open>probe_row(4)\<close> gets its permit, the Failed tab is
  chosen (no service is failed) or a manual refresh finds one service: \<open>self._rows\<close>
  has shrunk, and \<open>self._rows[4]\<close> raises \<open>IndexError\<close>. A \<open>probe_row\<close> that was
  already waiting for its probe comes back to a table without its row, and
  \<open>update_cell_at\<close> raises.
\<close>

theorem stale_row_index_raises:
  "length (rows app_five) = 5 \<and>
   rows (on_tabs_changed (Some ''tab-failed'') app_five) = [] \<and>
   fst (probe_row 4 (ProbeReturns (Some ''active'') (Some 7)) 50
          (on_tabs_changed (Some ''tab-failed'') app_five)) = Some IndexError \<and>
   rows (action_do_refresh [svc_web] app_five) = [0] \<and>
   fst (probe_row 4 (ProbeReturns (Some ''active'') (Some 7)) 50
          (action_do_refresh [svc_web] app_five)) = Some IndexError \<and>
   fst (probe_row_merge 4 4 (Some ''failed'') None 50
          (on_tabs_changed (Some ''tab-failed'') app_five)) = Some CellDoesNotExist"
proof -
  have a: "length (rows app_five) = 5" by (simp add: app_five_def)
  have b: "fst (probe_row 4 (ProbeReturns (Some ''active'') (Some 7)) 50
          (on_tabs_changed (Some ''tab-failed'') app_five)) = Some IndexError"
    by (simp add: probe_row_stale_row rows_after_tab_failed)
  have c: "fst (probe_row 4 (ProbeReturns (Some ''active'') (Some 7)) 50
          (action_do_refresh [svc_web] app_five)) = Some IndexError"
    by (simp add: probe_row_stale_row rows_after_refresh)
  have d: "fst (probe_row_merge 4 4 (Some ''failed'') None 50
          (on_tabs_changed (Some ''tab-failed'') app_five)) = Some CellDoesNotExist"
    by code_simp
  from a b c d rows_after_tab_failed rows_after_refresh show ?thesis by blast
qed

end
